theory Spec2Isabelle
  imports Complex_Main
begin

unbundle bit_operations_syntax

section \<open>Broadlink covers: the travel estimator of \<^verbatim>\<open>components/broadlink/cover.py\<close>\<close>

text \<open>
  The module drives covers through fire-and-forget IR/RF packets and estimates their
  position from elapsed time. Class \<^verbatim>\<open>_subCover\<close> is one axis (main or tilt);
  class \<^verbatim>\<open>BroadlinkCover\<close> composes two of them behind the feature bitmask.

  Conventions of the embedding:
  \<^item> Python objects are records, mutated by explicit state passing; a field keeps the
    attribute's name without its leading underscore.
  \<^item> \<^verbatim>\<open>None\<close> is \<open>None\<close> of an option type.
  \<^item> Time stamps, durations and speeds are Python floats and \<^verbatim>\<open>datetime\<close> values in
    the source. They are embedded as exact rationals (seconds), so the rounding of IEEE
    doubles and the microsecond resolution of \<^verbatim>\<open>timedelta\<close> are not represented.
  \<^item> A raised exception is \<open>Inl\<close> of the result; the state in which it was raised is
    not continued from.
  \<^item> An awaited call runs to completion before the caller goes on (the module is
    single threaded); a coroutine object that is created and never awaited runs nothing.
\<close>

subsection \<open>Python values\<close>

datatype error = TypeError | ZeroDivisionError

text \<open>\<^verbatim>\<open>round(x)\<close> and \<^verbatim>\<open>round(x, 0)\<close>: to the nearest integer, ties to the even one.\<close>

definition py_round :: "rat \<Rightarrow> int" where
  "py_round x =
     (let f = \<lfloor>x\<rfloor>; d = x - of_int f
      in if d < 1 / 2 then f
         else if 1 / 2 < d then f + 1
         else if even f then f else f + 1)"

type_synonym packet = string

text \<open>Truth value of an optional \<^verbatim>\<open>bytes\<close> payload: \<^verbatim>\<open>None\<close> and \<^verbatim>\<open>b""\<close> are false.\<close>

definition truthy :: "packet option \<Rightarrow> bool" where
  "truthy p = (case p of None \<Rightarrow> False | Some b \<Rightarrow> b \<noteq> [])"

subsection \<open>Module constants\<close>

definition COVER_DEBUG :: bool where
  "COVER_DEBUG = True"

definition TRAVEL_TIME_MAX :: rat where
  "TRAVEL_TIME_MAX = 300"

definition POSITION_MIN :: int where
  "POSITION_MIN = 0"

definition POSITION_MAX :: int where
  "POSITION_MAX = 100"

datatype cover_status = COVER_CLOSED | COVER_CLOSING | COVER_OPENED | COVER_OPENING

subsection \<open>What an operation does to the outside\<close>

text \<open>
  \<open>SendPacket p\<close>: \<^verbatim>\<open>_async_send_packet\<close> was awaited with argument \<open>p\<close>;
  \<open>DeviceRequest b\<close>: the payload was handed to \<^verbatim>\<open>device.async_request\<close>;
  \<open>LogError\<close>: \<^verbatim>\<open>_LOGGER.error\<close>;
  \<open>WriteHaState\<close>: the parent's \<^verbatim>\<open>async_write_ha_state()\<close>.
\<close>

datatype event = SendPacket "packet option" | DeviceRequest packet | LogError | WriteHaState

text \<open>
  The surroundings of one operation: the value of the module toggle \<^verbatim>\<open>COVER_DEBUG\<close>
  it runs under (the source fixes it, see \<open>COVER_DEBUG\<close> above), and whether
  \<^verbatim>\<open>device.async_request\<close> raises \<^verbatim>\<open>BroadlinkException\<close> or \<^verbatim>\<open>OSError\<close>.
\<close>

record env =
  debug :: bool
  request_raises :: bool

text \<open>Subscriptions held by the scheduler: a one-shot callback at a time, a periodic one.\<close>

datatype timer = PointInTime rat | TimeInterval rat

subsection \<open>One axis: \<^verbatim>\<open>_subCover\<close>\<close>

text \<open>
  \<open>attr_closed\<close> is the attribute \<^verbatim>\<open>_closed\<close> and \<open>attr_position\<close> the attribute
  \<^verbatim>\<open>position\<close> (no underscore): neither exists until the method that assigns it has
  run. \<open>hass_timers\<close> and \<open>hass_next\<close> are the scheduler's side of this axis: the live
  subscriptions, each with the identity its unsubscribe handle carries, and the next
  fresh identity.
\<close>

record subcover =
  is_tilt :: bool
  command_open :: "packet option"
  command_close :: "packet option"
  command_stop :: "packet option"
  opening_time :: rat
  closing_time :: rat
  status :: "cover_status option"
  position :: "int option"
  position_set :: "int option"
  position_start :: "int option"
  unsub_tracking_interval_listener :: "nat option"
  unsub_travel_duration_listener :: "nat option"
  travel_time_start :: "rat option"
  travel_time_stop :: "rat option"
  opening_speed :: rat
  closing_speed :: rat
  speed :: "rat option"
  attr_closed :: "bool option"
  attr_position :: "int option option"
  hass_timers :: "(nat \<times> timer) list"
  hass_next :: nat

definition subcover_init ::
  "packet option \<Rightarrow> packet option \<Rightarrow> packet option \<Rightarrow> rat \<Rightarrow> rat \<Rightarrow> bool \<Rightarrow> subcover" where
  "subcover_init c_open c_close c_stop t_open t_close tilt =
     \<lparr> is_tilt = tilt,
       command_open = c_open,
       command_close = c_close,
       command_stop = c_stop,
       opening_time = t_open,
       closing_time = t_close,
       status = None,
       position = None,
       position_set = None,
       position_start = None,
       unsub_tracking_interval_listener = None,
       unsub_travel_duration_listener = None,
       travel_time_start = None,
       travel_time_stop = None,
       opening_speed = (if 0 < t_open then of_int POSITION_MAX / t_open else of_int POSITION_MAX),
       closing_speed = (if 0 < t_close then of_int (- POSITION_MAX) / t_close else of_int (- POSITION_MAX)),
       speed = None,
       attr_closed = None,
       attr_position = None,
       hass_timers = [],
       hass_next = 0 \<rparr>"

definition current_cover_position :: "subcover \<Rightarrow> int option" where
  "current_cover_position s = position s"

definition is_closed :: "subcover \<Rightarrow> bool" where
  "is_closed s = (status s = Some COVER_CLOSED)"

definition is_closing :: "subcover \<Rightarrow> bool" where
  "is_closing s = (status s = Some COVER_CLOSING)"

definition is_opening :: "subcover \<Rightarrow> bool" where
  "is_opening s = (status s = Some COVER_OPENING)"

text \<open>
  \<^verbatim>\<open>async_track_point_in_utc_time\<close> and \<^verbatim>\<open>async_track_time_interval\<close>: the
  scheduler stores the subscription and returns its unsubscribe handle; calling the
  handle removes the subscription, and does nothing when it is already gone.
\<close>

definition hass_track :: "timer \<Rightarrow> subcover \<Rightarrow> nat \<times> subcover" where
  "hass_track t s =
     (hass_next s,
      s\<lparr>hass_timers := hass_timers s @ [(hass_next s, t)], hass_next := Suc (hass_next s)\<rparr>)"

definition hass_unsub :: "nat \<Rightarrow> subcover \<Rightarrow> subcover" where
  "hass_unsub i s = s\<lparr>hass_timers := filter (\<lambda>kt. fst kt \<noteq> i) (hass_timers s)\<rparr>"

definition async_send_packet :: "env \<Rightarrow> packet option \<Rightarrow> bool \<times> event list" where
  "async_send_packet e pkt =
     (case pkt of
        None \<Rightarrow> (True, [SendPacket pkt])
      | Some b \<Rightarrow>
          if debug e then (True, [SendPacket pkt])
          else if request_raises e then (False, [SendPacket pkt, DeviceRequest b, LogError])
          else (True, [SendPacket pkt, DeviceRequest b]))"

definition listeners_stop :: "subcover \<Rightarrow> bool \<times> subcover" where
  "listeners_stop s =
     (case unsub_tracking_interval_listener s of
        Some i \<Rightarrow>
          (let s1 = (hass_unsub i s)\<lparr>unsub_tracking_interval_listener := None\<rparr>;
               s2 = (case unsub_travel_duration_listener s1 of
                       Some j \<Rightarrow> (hass_unsub j s1)\<lparr>unsub_travel_duration_listener := None\<rparr>
                     | None \<Rightarrow> s1)
           in (True, s2))
      | None \<Rightarrow> (False, s))"

definition update_position :: "rat \<Rightarrow> subcover \<Rightarrow> error + subcover" where
  "update_position now s =
     (case position_start s of
        None \<Rightarrow> Inr s
      | Some start \<Rightarrow>
          (case travel_time_start s of
             None \<Rightarrow> Inr s
           | Some t0 \<Rightarrow>
               (case speed s of
                  None \<Rightarrow> Inl TypeError
                | Some v \<Rightarrow>
                    (let travel_time = now - t0;
                         travel_pos = py_round (travel_time * v);
                         pos = start + travel_pos;
                         p = max POSITION_MIN (min pos POSITION_MAX)
                     in Inr (s\<lparr>position := Some p, attr_closed := Some (p \<le> POSITION_MIN)\<rparr>)))))"

text \<open>The reconcile step that opens \<^verbatim>\<open>_listeners_start\<close> and \<^verbatim>\<open>async_stop_cover\<close>:
  \<^verbatim>\<open>if self._listeners_stop(): self._update_position(now)\<close>.\<close>

definition stop_and_update :: "rat \<Rightarrow> subcover \<Rightarrow> error + subcover" where
  "stop_and_update now s =
     (let (stopped, s1) = listeners_stop s
      in if stopped then update_position now s1 else Inr s1)"

definition listeners_start :: "rat \<Rightarrow> subcover \<Rightarrow> error + subcover" where
  "listeners_start now s =
     (case stop_and_update now s of
        Inl err \<Rightarrow> Inl err
      | Inr s1 \<Rightarrow>
          (let closing = (status s1 = Some COVER_CLOSING);
               v = (if closing then closing_speed s1 else opening_speed s1);
               s2 = s1\<lparr>speed := Some v\<rparr>;
               started =
                 (case position s2 of
                    None \<Rightarrow>
                      Inr (s2\<lparr>position_start := Some (if closing then POSITION_MAX else POSITION_MIN)\<rparr>,
                           if closing then closing_time s2 else opening_time s2)
                  | Some p \<Rightarrow>
                      (case position_set s2 of
                         None \<Rightarrow> Inl TypeError
                       | Some target \<Rightarrow>
                           if v = 0 then Inl ZeroDivisionError
                           else Inr (s2\<lparr>position_start := Some p\<rparr>, \<bar>of_int (target - p) / v\<bar>)))
           in case started of
                Inl err \<Rightarrow> Inl err
              | Inr (s3, travel_duration) \<Rightarrow>
                  (let s4 = s3\<lparr>travel_time_start := Some now,
                                 travel_time_stop := Some (now + travel_duration)\<rparr>;
                       (h, s5) = hass_track (PointInTime (now + travel_duration)) s4;
                       s6 = s5\<lparr>unsub_travel_duration_listener := Some h\<rparr>
                   in if 2 < travel_duration
                      then (let (k, s7) = hass_track (TimeInterval 1) s6
                            in Inr (s7\<lparr>unsub_tracking_interval_listener := Some k\<rparr>))
                      else Inr s6)))"

definition async_close_cover :: "env \<Rightarrow> rat \<Rightarrow> subcover \<Rightarrow> error + subcover \<times> event list" where
  "async_close_cover e now s =
     (let (ok, ev) = async_send_packet e (command_close s)
      in if ok
         then (case listeners_start now (s\<lparr>status := Some COVER_CLOSING, position_set := Some POSITION_MIN\<rparr>) of
                 Inl err \<Rightarrow> Inl err
               | Inr s1 \<Rightarrow> Inr (s1, ev @ [WriteHaState]))
         else Inr (s, ev))"

definition async_open_cover :: "env \<Rightarrow> rat \<Rightarrow> subcover \<Rightarrow> error + subcover \<times> event list" where
  "async_open_cover e now s =
     (let (ok, ev) = async_send_packet e (command_open s)
      in if ok
         then (case listeners_start now (s\<lparr>status := Some COVER_OPENING, position_set := Some POSITION_MAX\<rparr>) of
                 Inl err \<Rightarrow> Inl err
               | Inr s1 \<Rightarrow> Inr (s1, ev @ [WriteHaState]))
         else Inr (s, ev))"

definition async_stop_cover :: "env \<Rightarrow> rat \<Rightarrow> subcover \<Rightarrow> error + subcover \<times> event list" where
  "async_stop_cover e now s =
     (let (ok, ev) = async_send_packet e (command_stop s)
      in if ok
         then (case stop_and_update now s of
                 Inl err \<Rightarrow> Inl err
               | Inr s1 \<Rightarrow>
                   Inr (s1\<lparr>status := Some (if position s1 = Some POSITION_MIN then COVER_CLOSED else COVER_OPENED),
                            position_set := position s1,
                            position_start := None\<rparr>,
                        ev @ [WriteHaState]))
         else Inr (s, ev))"

text \<open>
  The keyword arguments of a set-position service call, and what
  \<^verbatim>\<open>async_set_cover_position\<close> returns to the caller that awaits it: nothing, or the
  coroutine object of \<^verbatim>\<open>async_close_cover()\<close> / \<^verbatim>\<open>async_open_cover()\<close>, which the
  method creates and returns without awaiting it.
\<close>

record kwargs =
  ATTR_POSITION :: "rat option"
  ATTR_TILT_POSITION :: "rat option"

datatype returned = ReturnsNone | ReturnsCloseCoroutine | ReturnsOpenCoroutine

definition async_set_cover_position ::
  "env \<Rightarrow> rat \<Rightarrow> kwargs \<Rightarrow> subcover \<Rightarrow> error + subcover \<times> event list \<times> returned" where
  "async_set_cover_position e now kw s =
     (case (if is_tilt s then ATTR_TILT_POSITION kw else ATTR_POSITION kw) of
        None \<Rightarrow> Inl TypeError
      | Some x \<Rightarrow>
          (let target = max POSITION_MIN (min (py_round x) POSITION_MAX)
           in if target = POSITION_MIN then Inr (s, [], ReturnsCloseCoroutine)
              else if target = POSITION_MAX then Inr (s, [], ReturnsOpenCoroutine)
              else (case position s of
                      None \<Rightarrow> Inr (s, [WriteHaState], ReturnsNone)
                    | Some p \<Rightarrow>
                        if p = target then Inr (s, [WriteHaState], ReturnsNone)
                        else
                          (let s1 = s\<lparr>position_set := Some target\<rparr>;
                               s2 = (if target < p then s1\<lparr>status := Some COVER_CLOSING\<rparr>
                                     else s1\<lparr>status := Some COVER_OPENING\<rparr>);
                               command = (if target < p then command_close s else command_open s);
                               (ok, ev) = async_send_packet e command
                           in if ok
                              then (case listeners_start now s2 of
                                      Inl err \<Rightarrow> Inl err
                                    | Inr s3 \<Rightarrow> Inr (s3, ev @ [WriteHaState], ReturnsNone))
                              else Inr (s2, ev, ReturnsNone)))))"

definition restore_position :: "int option \<Rightarrow> subcover \<Rightarrow> subcover" where
  "restore_position p s = s\<lparr>attr_position := Some p\<rparr>"

definition async_track_travel_duration :: "env \<Rightarrow> rat \<Rightarrow> subcover \<Rightarrow> error + subcover \<times> event list" where
  "async_track_travel_duration e now s =
     (let ev = (if position_set s \<noteq> Some POSITION_MIN \<and> position_set s \<noteq> Some POSITION_MAX
                then snd (async_send_packet e (command_stop s)) else []);
          s1 = snd (listeners_stop s)
      in case update_position now s1 of
           Inl err \<Rightarrow> Inl err
         | Inr s2 \<Rightarrow>
             (case travel_time_start s2 of
                None \<Rightarrow> Inl TypeError
              | Some t0 \<Rightarrow>
                  (let s3 = (if position_set s2 = Some POSITION_MIN then s2\<lparr>position := Some POSITION_MIN\<rparr>
                             else if position_set s2 = Some POSITION_MAX then s2\<lparr>position := Some POSITION_MAX\<rparr>
                             else s2);
                       s4 = s3\<lparr>position_start := None\<rparr>;
                       s5 = s4\<lparr>status := Some (if position s4 = Some POSITION_MIN then COVER_CLOSED else COVER_OPENED)\<rparr>
                   in Inr (s5, ev @ [WriteHaState]))))"

definition async_track_cover_position :: "rat \<Rightarrow> subcover \<Rightarrow> error + subcover \<times> event list" where
  "async_track_cover_position now s =
     (case update_position now s of
        Inl err \<Rightarrow> Inl err
      | Inr s1 \<Rightarrow> Inr (s1, [WriteHaState]))"

subsection \<open>The scheduler's callbacks and runs of one axis\<close>

text \<open>
  A periodic subscription calls \<^verbatim>\<open>_async_track_cover_position\<close> while it is live. A
  one-shot subscription calls \<^verbatim>\<open>_async_track_travel_duration\<close> once, at or after its
  time, and is gone from the scheduler when the callback runs. A subscription that is
  not live calls nothing.
\<close>

definition fire_tracking_interval :: "rat \<Rightarrow> nat \<Rightarrow> subcover \<Rightarrow> error + subcover \<times> event list" where
  "fire_tracking_interval now i s =
     (case map_of (hass_timers s) i of
        Some (TimeInterval period) \<Rightarrow> async_track_cover_position now s
      | _ \<Rightarrow> Inr (s, []))"

definition fire_travel_duration :: "env \<Rightarrow> rat \<Rightarrow> nat \<Rightarrow> subcover \<Rightarrow> error + subcover \<times> event list" where
  "fire_travel_duration e now i s =
     (case map_of (hass_timers s) i of
        Some (PointInTime t) \<Rightarrow>
          if t \<le> now then async_track_travel_duration e now (hass_unsub i s) else Inr (s, [])
      | _ \<Rightarrow> Inr (s, []))"

text \<open>
  What can happen to an axis: the four commands and the two callbacks. The caller of
  \<^verbatim>\<open>async_set_cover_position\<close> awaits it and drops what it returns.
\<close>

datatype action =
  OpenCover | CloseCover | StopCover | SetCoverPosition kwargs
  | TrackingInterval nat | TravelDuration nat

fun step :: "env \<Rightarrow> rat \<Rightarrow> action \<Rightarrow> subcover \<Rightarrow> error + subcover \<times> event list" where
  "step e now OpenCover s = async_open_cover e now s"
| "step e now CloseCover s = async_close_cover e now s"
| "step e now StopCover s = async_stop_cover e now s"
| "step e now (SetCoverPosition kw) s =
     (case async_set_cover_position e now kw s of
        Inl err \<Rightarrow> Inl err
      | Inr (s1, ev, r) \<Rightarrow> Inr (s1, ev))"
| "step e now (TrackingInterval i) s = fire_tracking_interval now i s"
| "step e now (TravelDuration i) s = fire_travel_duration e now i s"

fun run :: "(env \<times> rat \<times> action) list \<Rightarrow> subcover \<Rightarrow> error + subcover \<times> event list" where
  "run [] s = Inr (s, [])"
| "run ((e, now, a) # tr) s =
     (case step e now a s of
        Inl err \<Rightarrow> Inl err
      | Inr (s1, ev1) \<Rightarrow>
          (case run tr s1 of
             Inl err \<Rightarrow> Inl err
           | Inr (s2, ev2) \<Rightarrow> Inr (s2, ev1 @ ev2)))"

text \<open>The state a run ends in, when no exception was raised.\<close>

definition final :: "error + subcover \<times> event list \<Rightarrow> subcover option" where
  "final r = (case r of Inl err \<Rightarrow> None | Inr (s, ev) \<Rightarrow> Some s)"

definition events :: "error + subcover \<times> event list \<Rightarrow> event list option" where
  "events r = (case r of Inl err \<Rightarrow> None | Inr (s, ev) \<Rightarrow> Some ev)"

text \<open>The send of a step succeeds: the toggle fakes it, or the request does not raise.\<close>

definition send_succeeds :: "env \<times> rat \<times> action \<Rightarrow> bool" where
  "send_succeeds x = (debug (fst x) \<or> \<not> request_raises (fst x))"

subsection \<open>The cover entity: \<^verbatim>\<open>BroadlinkCover\<close>\<close>

text \<open>
  The feature flags are constants of \<^verbatim>\<open>homeassistant.components.cover\<close>, which is
  not among the sources: the model takes them as a parameter. \<open>separate_flags\<close> says what
  a bitmask needs of them: each is non-zero and no two share a bit.
\<close>

record flags =
  SUPPORT_OPEN :: int
  SUPPORT_CLOSE :: int
  SUPPORT_SET_POSITION :: int
  SUPPORT_STOP :: int
  SUPPORT_OPEN_TILT :: int
  SUPPORT_CLOSE_TILT :: int
  SUPPORT_STOP_TILT :: int
  SUPPORT_SET_TILT_POSITION :: int

fun separate :: "int list \<Rightarrow> bool" where
  "separate [] = True"
| "separate (x # xs) = (x \<noteq> 0 \<and> list_all (\<lambda>y. x AND y = 0) xs \<and> separate xs)"

definition separate_flags :: "flags \<Rightarrow> bool" where
  "separate_flags K =
     separate [SUPPORT_OPEN K, SUPPORT_CLOSE K, SUPPORT_SET_POSITION K, SUPPORT_STOP K,
               SUPPORT_OPEN_TILT K, SUPPORT_CLOSE_TILT K, SUPPORT_STOP_TILT K,
               SUPPORT_SET_TILT_POSITION K]"

text \<open>Modelled from the spec: the state labels of the restore source, constants of
  \<^verbatim>\<open>homeassistant.components.cover\<close>, are "opening", "closing" and "closed".\<close>

definition STATE_OPENING :: string where
  "STATE_OPENING = ''opening''"

definition STATE_CLOSING :: string where
  "STATE_CLOSING = ''closing''"

definition STATE_CLOSED :: string where
  "STATE_CLOSED = ''closed''"

text \<open>One validated entry of \<^verbatim>\<open>COVER_SCHEMA\<close>; the schema defaults the times to 0.\<close>

record config =
  CONF_COMMAND_OPEN :: "packet option"
  CONF_COMMAND_CLOSE :: "packet option"
  CONF_COMMAND_STOP :: "packet option"
  CONF_OPENING_TIME :: rat
  CONF_CLOSING_TIME :: rat
  CONF_TILT_COMMAND_OPEN :: "packet option"
  CONF_TILT_COMMAND_CLOSE :: "packet option"
  CONF_TILT_COMMAND_STOP :: "packet option"
  CONF_TILT_OPENING_TIME :: rat
  CONF_TILT_CLOSING_TIME :: rat

text \<open>\<open>attr_is_opening\<close>, \<open>attr_is_closing\<close> and \<open>attr_is_closed\<close> are the attributes
  \<^verbatim>\<open>_is_opening\<close>, \<^verbatim>\<open>_is_closing\<close> and \<^verbatim>\<open>_is_closed\<close> that \<^verbatim>\<open>_restore_state\<close>
  creates on the entity.\<close>

record broadlink_cover =
  supported_features :: int
  main_enable :: bool
  tilt_enable :: bool
  main :: subcover
  tilt :: subcover
  attr_is_opening :: "bool option"
  attr_is_closing :: "bool option"
  attr_is_closed :: "bool option"

definition BroadlinkCover_init :: "flags \<Rightarrow> config \<Rightarrow> broadlink_cover" where
  "BroadlinkCover_init K cfg =
     (let c_open = CONF_COMMAND_OPEN cfg;
          c_close = CONF_COMMAND_CLOSE cfg;
          c_stop = CONF_COMMAND_STOP cfg;
          t_open = CONF_OPENING_TIME cfg;
          t_close = CONF_CLOSING_TIME cfg;
          tilt_open = CONF_TILT_COMMAND_OPEN cfg;
          tilt_close = CONF_TILT_COMMAND_CLOSE cfg;
          tilt_stop = CONF_TILT_COMMAND_STOP cfg;
          tilt_t_open = CONF_TILT_OPENING_TIME cfg;
          tilt_t_close = CONF_TILT_CLOSING_TIME cfg;
          f0 = (0 :: int);
          f1 = (if truthy c_open then f0 OR SUPPORT_OPEN K else f0);
          f2 = (if truthy c_close then f1 OR SUPPORT_CLOSE K else f1);
          f3 = (if truthy c_stop then f2 OR SUPPORT_STOP K else f2);
          f4 = (if truthy c_open \<and> truthy c_close \<and> truthy c_stop \<and> 0 < t_open \<and> 0 < t_close
                then f3 OR SUPPORT_SET_POSITION K else f3);
          main_on = (f4 OR (SUPPORT_OPEN K AND SUPPORT_CLOSE K AND SUPPORT_STOP K) \<noteq> 0);
          f5 = (if truthy tilt_open then f4 OR SUPPORT_OPEN_TILT K else f4);
          f6 = (if truthy tilt_close then f5 OR SUPPORT_CLOSE_TILT K else f5);
          f7 = (if truthy tilt_stop then f6 OR SUPPORT_STOP_TILT K else f6);
          f8 = (if truthy tilt_open \<and> truthy tilt_close \<and> truthy tilt_stop
                   \<and> 0 < tilt_t_open \<and> 0 < tilt_t_close
                then f7 OR SUPPORT_SET_TILT_POSITION K else f7);
          tilt_on = (f8 OR (SUPPORT_OPEN_TILT K AND SUPPORT_CLOSE_TILT K AND SUPPORT_STOP_TILT K) \<noteq> 0)
      in \<lparr> supported_features = f8,
           main_enable = main_on,
           tilt_enable = tilt_on,
           main = subcover_init c_open c_close c_stop t_open t_close False,
           tilt = subcover_init tilt_open tilt_close tilt_stop tilt_t_open tilt_t_close True,
           attr_is_opening = None,
           attr_is_closing = None,
           attr_is_closed = None \<rparr>)"

definition restore_state :: "string \<Rightarrow> broadlink_cover \<Rightarrow> broadlink_cover" where
  "restore_state st c =
     (let c1 = c\<lparr>attr_is_opening := Some False, attr_is_closing := Some False,
                 attr_is_closed := Some False\<rparr>
      in if st = STATE_OPENING then c1\<lparr>attr_is_opening := Some True\<rparr>
         else if st = STATE_CLOSING then c1\<lparr>attr_is_closing := Some True\<rparr>
         else if st = STATE_CLOSED then c1\<lparr>attr_is_closed := Some True\<rparr>
         else c1)"

definition BroadlinkCover_current_cover_position :: "flags \<Rightarrow> broadlink_cover \<Rightarrow> int option" where
  "BroadlinkCover_current_cover_position K c =
     (if supported_features c AND SUPPORT_SET_POSITION K \<noteq> 0
      then current_cover_position (main c) else None)"

definition BroadlinkCover_current_cover_tilt_position :: "flags \<Rightarrow> broadlink_cover \<Rightarrow> int option" where
  "BroadlinkCover_current_cover_tilt_position K c =
     (if supported_features c AND SUPPORT_SET_TILT_POSITION K \<noteq> 0
      then current_cover_position (tilt c) else None)"

definition BroadlinkCover_is_closed :: "broadlink_cover \<Rightarrow> bool" where
  "BroadlinkCover_is_closed c = is_closed (main c)"

definition BroadlinkCover_is_closing :: "broadlink_cover \<Rightarrow> bool" where
  "BroadlinkCover_is_closing c = is_closing (main c)"

definition BroadlinkCover_is_opening :: "broadlink_cover \<Rightarrow> bool" where
  "BroadlinkCover_is_opening c = is_opening (main c)"

text \<open>What the restore source hands over: the state label and the two saved positions.\<close>

record saved_state =
  saved_label :: string
  ATTR_CURRENT_POSITION :: "int option"
  ATTR_CURRENT_TILT_POSITION :: "int option"

definition async_added_to_hass :: "flags \<Rightarrow> saved_state option \<Rightarrow> broadlink_cover \<Rightarrow> broadlink_cover" where
  "async_added_to_hass K saved c =
     (case saved of
        None \<Rightarrow> c
      | Some sv \<Rightarrow>
          (let c1 = restore_state (saved_label sv) c;
               c2 = (if BroadlinkCover_current_cover_position K c1 = None
                     then c1\<lparr>main := restore_position (ATTR_CURRENT_POSITION sv) (main c1)\<rparr>
                     else c1);
               c3 = (if BroadlinkCover_current_cover_tilt_position K c2 = None
                     then c2\<lparr>tilt := restore_position (ATTR_CURRENT_TILT_POSITION sv) (tilt c2)\<rparr>
                     else c2)
           in c3))"

text \<open>The entity's operations: each awaits the axis' method behind its feature flag.\<close>

definition on_main ::
  "(subcover \<Rightarrow> error + subcover \<times> event list) \<Rightarrow> broadlink_cover \<Rightarrow> error + broadlink_cover \<times> event list" where
  "on_main f c = (case f (main c) of Inl err \<Rightarrow> Inl err | Inr (s, ev) \<Rightarrow> Inr (c\<lparr>main := s\<rparr>, ev))"

definition on_tilt ::
  "(subcover \<Rightarrow> error + subcover \<times> event list) \<Rightarrow> broadlink_cover \<Rightarrow> error + broadlink_cover \<times> event list" where
  "on_tilt f c = (case f (tilt c) of Inl err \<Rightarrow> Inl err | Inr (s, ev) \<Rightarrow> Inr (c\<lparr>tilt := s\<rparr>, ev))"

definition BroadlinkCover_async_close_cover ::
  "flags \<Rightarrow> env \<Rightarrow> rat \<Rightarrow> broadlink_cover \<Rightarrow> error + broadlink_cover \<times> event list" where
  "BroadlinkCover_async_close_cover K e now c =
     (if supported_features c AND SUPPORT_CLOSE K \<noteq> 0
      then on_main (async_close_cover e now) c else Inr (c, []))"

definition BroadlinkCover_async_close_cover_tilt ::
  "flags \<Rightarrow> env \<Rightarrow> rat \<Rightarrow> broadlink_cover \<Rightarrow> error + broadlink_cover \<times> event list" where
  "BroadlinkCover_async_close_cover_tilt K e now c =
     (if supported_features c AND SUPPORT_CLOSE_TILT K \<noteq> 0
      then on_tilt (async_close_cover e now) c else Inr (c, []))"

definition BroadlinkCover_async_open_cover ::
  "flags \<Rightarrow> env \<Rightarrow> rat \<Rightarrow> broadlink_cover \<Rightarrow> error + broadlink_cover \<times> event list" where
  "BroadlinkCover_async_open_cover K e now c =
     (if supported_features c AND SUPPORT_OPEN K \<noteq> 0
      then on_main (async_open_cover e now) c else Inr (c, []))"

definition BroadlinkCover_async_open_cover_tilt ::
  "flags \<Rightarrow> env \<Rightarrow> rat \<Rightarrow> broadlink_cover \<Rightarrow> error + broadlink_cover \<times> event list" where
  "BroadlinkCover_async_open_cover_tilt K e now c =
     (if supported_features c AND SUPPORT_OPEN_TILT K \<noteq> 0
      then on_tilt (async_open_cover e now) c else Inr (c, []))"

definition BroadlinkCover_async_stop_cover ::
  "flags \<Rightarrow> env \<Rightarrow> rat \<Rightarrow> broadlink_cover \<Rightarrow> error + broadlink_cover \<times> event list" where
  "BroadlinkCover_async_stop_cover K e now c =
     (if supported_features c AND SUPPORT_STOP K \<noteq> 0
      then on_main (async_stop_cover e now) c else Inr (c, []))"

definition BroadlinkCover_async_stop_cover_tilt ::
  "flags \<Rightarrow> env \<Rightarrow> rat \<Rightarrow> broadlink_cover \<Rightarrow> error + broadlink_cover \<times> event list" where
  "BroadlinkCover_async_stop_cover_tilt K e now c =
     (if supported_features c AND SUPPORT_STOP_TILT K \<noteq> 0
      then on_tilt (async_stop_cover e now) c else Inr (c, []))"

definition BroadlinkCover_async_set_cover_position ::
  "flags \<Rightarrow> env \<Rightarrow> rat \<Rightarrow> kwargs \<Rightarrow> broadlink_cover \<Rightarrow> error + broadlink_cover \<times> event list" where
  "BroadlinkCover_async_set_cover_position K e now kw c =
     (if supported_features c AND SUPPORT_SET_POSITION K \<noteq> 0
      then on_main (step e now (SetCoverPosition kw)) c else Inr (c, []))"

definition BroadlinkCover_async_set_cover_tilt_position ::
  "flags \<Rightarrow> env \<Rightarrow> rat \<Rightarrow> kwargs \<Rightarrow> broadlink_cover \<Rightarrow> error + broadlink_cover \<times> event list" where
  "BroadlinkCover_async_set_cover_tilt_position K e now kw c =
     (if supported_features c AND SUPPORT_SET_TILT_POSITION K \<noteq> 0
      then on_tilt (step e now (SetCoverPosition kw)) c else Inr (c, []))"

text \<open>The cover services of the host, by name, and the flag each is gated by.\<close>

datatype service =
  CloseCoverService | CloseCoverTiltService | OpenCoverService | OpenCoverTiltService
  | StopCoverService | StopCoverTiltService | SetCoverPositionService kwargs
  | SetCoverTiltPositionService kwargs

fun call ::
  "flags \<Rightarrow> env \<Rightarrow> rat \<Rightarrow> service \<Rightarrow> broadlink_cover \<Rightarrow> error + broadlink_cover \<times> event list" where
  "call K e now CloseCoverService c = BroadlinkCover_async_close_cover K e now c"
| "call K e now CloseCoverTiltService c = BroadlinkCover_async_close_cover_tilt K e now c"
| "call K e now OpenCoverService c = BroadlinkCover_async_open_cover K e now c"
| "call K e now OpenCoverTiltService c = BroadlinkCover_async_open_cover_tilt K e now c"
| "call K e now StopCoverService c = BroadlinkCover_async_stop_cover K e now c"
| "call K e now StopCoverTiltService c = BroadlinkCover_async_stop_cover_tilt K e now c"
| "call K e now (SetCoverPositionService kw) c = BroadlinkCover_async_set_cover_position K e now kw c"
| "call K e now (SetCoverTiltPositionService kw) c = BroadlinkCover_async_set_cover_tilt_position K e now kw c"

fun flag_of :: "flags \<Rightarrow> service \<Rightarrow> int" where
  "flag_of K CloseCoverService = SUPPORT_CLOSE K"
| "flag_of K CloseCoverTiltService = SUPPORT_CLOSE_TILT K"
| "flag_of K OpenCoverService = SUPPORT_OPEN K"
| "flag_of K OpenCoverTiltService = SUPPORT_OPEN_TILT K"
| "flag_of K StopCoverService = SUPPORT_STOP K"
| "flag_of K StopCoverTiltService = SUPPORT_STOP_TILT K"
| "flag_of K (SetCoverPositionService kw) = SUPPORT_SET_POSITION K"
| "flag_of K (SetCoverTiltPositionService kw) = SUPPORT_SET_TILT_POSITION K"

subsection \<open>Vocabulary of the properties\<close>


text \<open>
  The status of an axis is one of the two directions of travel, or one of the two rest
  positions; a traverse is in progress while \<open>position_start\<close> is set.
\<close>

definition moving :: "subcover \<Rightarrow> bool" where
  "moving s = (status s = Some COVER_CLOSING \<or> status s = Some COVER_OPENING)"

definition terminal :: "subcover \<Rightarrow> bool" where
  "terminal s = (status s = Some COVER_CLOSED \<or> status s = Some COVER_OPENED)"

definition in_progress :: "subcover \<Rightarrow> bool" where
  "in_progress s = (position_start s \<noteq> None)"

text \<open>What holds of status and position after every run.\<close>

definition status_ok :: "subcover \<Rightarrow> bool" where
  "status_ok s \<longleftrightarrow>
     (in_progress s \<longrightarrow> moving s) \<and>
     (terminal s \<longrightarrow> \<not> in_progress s) \<and>
     (terminal s \<longrightarrow> (status s = Some COVER_CLOSED \<longleftrightarrow> position s = Some POSITION_MIN))"

text \<open>What holds in addition after a run all of whose sends succeeded.\<close>

definition status_ok_sent :: "subcover \<Rightarrow> bool" where
  "status_ok_sent s \<longleftrightarrow>
     (moving s \<longrightarrow> in_progress s) \<and>
     (\<not> in_progress s \<and> position s \<noteq> None \<longrightarrow> terminal s)"

definition in_range :: "int option \<Rightarrow> bool" where
  "in_range x = (case x of None \<Rightarrow> True | Some p \<Rightarrow> POSITION_MIN \<le> p \<and> p \<le> POSITION_MAX)"

definition ranges_ok :: "subcover \<Rightarrow> bool" where
  "ranges_ok s \<longleftrightarrow> in_range (position s) \<and> in_range (position_set s) \<and> in_range (position_start s)"

text \<open>What the callbacks rely on: a traverse in progress has its speed, a live subscription
  has its start time, and the configured speeds are not zero.\<close>

definition wired :: "subcover \<Rightarrow> bool" where
  "wired s \<longleftrightarrow>
     (position_start s \<noteq> None \<longrightarrow> speed s \<noteq> None) \<and>
     (hass_timers s \<noteq> [] \<longrightarrow> travel_time_start s \<noteq> None) \<and>
     opening_speed s \<noteq> 0 \<and> closing_speed s \<noteq> 0"

fun is_interval :: "timer \<Rightarrow> bool" where
  "is_interval (TimeInterval period) = True"
| "is_interval (PointInTime t) = False"

text \<open>
  The subscriptions of an axis: a tick handle is held only together with an end-of-travel
  handle; every live periodic subscription is the one whose handle the axis holds; no
  identity is live twice, and every live identity has been handed out.
\<close>

definition timers_ok :: "subcover \<Rightarrow> bool" where
  "timers_ok s \<longleftrightarrow>
     (unsub_tracking_interval_listener s \<noteq> None \<longrightarrow> unsub_travel_duration_listener s \<noteq> None) \<and>
     list_all (\<lambda>kt. is_interval (snd kt) \<longrightarrow> unsub_tracking_interval_listener s = Some (fst kt))
       (hass_timers s) \<and>
     distinct (map fst (hass_timers s)) \<and>
     list_all (\<lambda>kt. fst kt < hass_next s) (hass_timers s)"

text \<open>Every handle the axis holds has been handed out by the scheduler.\<close>

definition handles_ok :: "subcover \<Rightarrow> bool" where
  "handles_ok s \<longleftrightarrow>
     (\<forall>i. unsub_tracking_interval_listener s = Some i \<longrightarrow> i < hass_next s) \<and>
     (\<forall>j. unsub_travel_duration_listener s = Some j \<longrightarrow> j < hass_next s)"

text \<open>The identities of the live subscriptions.\<close>

definition live :: "subcover \<Rightarrow> nat set" where
  "live s = fst ` set (hass_timers s)"

text \<open>The fields that \<^verbatim>\<open>_listeners_stop\<close> never writes.\<close>

definition core ::
  "subcover \<Rightarrow>
     (cover_status option \<times> int option \<times> int option \<times> int option)
     \<times> (rat option \<times> rat option \<times> nat)
     \<times> (rat \<times> rat \<times> rat \<times> rat)
     \<times> (packet option \<times> packet option \<times> packet option \<times> bool)" where
  "core s =
     ((status s, position s, position_set s, position_start s),
      (speed s, travel_time_start s, hass_next s),
      (opening_speed s, closing_speed s, opening_time s, closing_time s),
      (command_open s, command_close s, command_stop s, is_tilt s))"

text \<open>The state in which \<^verbatim>\<open>_listeners_start\<close> leaves a reconciled axis: speed \<open>v\<close>, start
  position \<open>start\<close>, travel duration \<open>d\<close>; and the speed it picks.\<close>

definition begun :: "rat \<Rightarrow> rat \<Rightarrow> int \<Rightarrow> rat \<Rightarrow> subcover \<Rightarrow> subcover" where
  "begun now v start d s =
     s\<lparr>speed := Some v,
       position_start := Some start,
       travel_time_start := Some now,
       travel_time_stop := Some (now + d),
       hass_timers :=
         hass_timers s @ (hass_next s, PointInTime (now + d))
           # (if 2 < d then [(Suc (hass_next s), TimeInterval 1)] else []),
       hass_next := (if 2 < d then Suc (Suc (hass_next s)) else Suc (hass_next s)),
       unsub_travel_duration_listener := Some (hass_next s),
       unsub_tracking_interval_listener :=
         (if 2 < d then Some (Suc (hass_next s)) else unsub_tracking_interval_listener s)\<rparr>"

definition direction_speed :: "subcover \<Rightarrow> rat" where
  "direction_speed s = (if status s = Some COVER_CLOSING then closing_speed s else opening_speed s)"

text \<open>What every run from a fresh axis keeps.\<close>

definition axis_inv :: "subcover \<Rightarrow> bool" where
  "axis_inv s \<longleftrightarrow> timers_ok s \<and> status_ok s \<and> ranges_ok s \<and> wired s"

text \<open>The configuration of an axis: what \<^verbatim>\<open>__init__\<close> fixes for good.\<close>

definition configuration ::
  "subcover \<Rightarrow> (packet option \<times> packet option \<times> packet option \<times> bool) \<times> (rat \<times> rat \<times> rat \<times> rat)" where
  "configuration s =
     ((command_open s, command_close s, command_stop s, is_tilt s),
      (opening_time s, closing_time s, opening_speed s, closing_speed s))"

text \<open>Every set-position action of a run carries the position its axis reads.\<close>

fun has_position :: "subcover \<Rightarrow> env \<times> rat \<times> action \<Rightarrow> bool" where
  "has_position s (e, now, SetCoverPosition kw) =
     ((if is_tilt s then ATTR_TILT_POSITION kw else ATTR_POSITION kw) \<noteq> None)"
| "has_position s (e, now, a) = True"

subsection \<open>Sample inputs\<close>

text \<open>The axis of the specification's scenario: ten seconds to open, eight to close.\<close>

definition sample_axis :: subcover where
  "sample_axis = subcover_init (Some ''open'') (Some ''close'') (Some ''stop'') 10 8 False"

text \<open>An axis that opens and closes in one second.\<close>

definition quick_axis :: subcover where
  "quick_axis = subcover_init (Some ''open'') (Some ''close'') (Some ''stop'') 1 1 False"

text \<open>The module as it is in the source, with a device whose requests go through or raise;
  and the module with the toggle off, with such devices.\<close>

definition shipped :: env where
  "shipped = \<lparr>debug = COVER_DEBUG, request_raises = False\<rparr>"

definition shipped_device_down :: env where
  "shipped_device_down = \<lparr>debug = COVER_DEBUG, request_raises = True\<rparr>"

definition device_up :: env where
  "device_up = \<lparr>debug = False, request_raises = False\<rparr>"

definition device_down :: env where
  "device_down = \<lparr>debug = False, request_raises = True\<rparr>"

definition to_position :: "rat \<Rightarrow> kwargs" where
  "to_position x = \<lparr>ATTR_POSITION = Some x, ATTR_TILT_POSITION = None\<rparr>"

text \<open>What the properties look at in a state, and in the result of a run.\<close>

definition view ::
  "subcover \<Rightarrow> cover_status option \<times> int option \<times> int option \<times> int option \<times> (nat \<times> timer) list" where
  "view s = (status s, position s, position_set s, position_start s, hass_timers s)"

definition outcome ::
  "error + subcover \<times> event list \<Rightarrow>
     (cover_status option \<times> int option \<times> int option \<times> int option \<times> (nat \<times> timer) list) option" where
  "outcome r = map_option view (final r)"

definition handles :: "error + subcover \<times> event list \<Rightarrow> (nat option \<times> nat option) option" where
  "handles r =
     map_option (\<lambda>s. (unsub_tracking_interval_listener s, unsub_travel_duration_listener s)) (final r)"

text \<open>One choice of separate feature flags; an entry with open and close payloads only; an
  entry with all payloads and both times of the main axis; a saved state.\<close>

definition example_flags :: flags where
  "example_flags =
     \<lparr>SUPPORT_OPEN = 1, SUPPORT_CLOSE = 2, SUPPORT_SET_POSITION = 4, SUPPORT_STOP = 8,
      SUPPORT_OPEN_TILT = 16, SUPPORT_CLOSE_TILT = 32, SUPPORT_STOP_TILT = 64,
      SUPPORT_SET_TILT_POSITION = 128\<rparr>"

definition open_close_config :: config where
  "open_close_config =
     \<lparr>CONF_COMMAND_OPEN = Some ''open'', CONF_COMMAND_CLOSE = Some ''close'',
      CONF_COMMAND_STOP = None, CONF_OPENING_TIME = 0, CONF_CLOSING_TIME = 0,
      CONF_TILT_COMMAND_OPEN = None, CONF_TILT_COMMAND_CLOSE = None,
      CONF_TILT_COMMAND_STOP = None, CONF_TILT_OPENING_TIME = 0, CONF_TILT_CLOSING_TIME = 0\<rparr>"

definition full_config :: config where
  "full_config =
     \<lparr>CONF_COMMAND_OPEN = Some ''open'', CONF_COMMAND_CLOSE = Some ''close'',
      CONF_COMMAND_STOP = Some ''stop'', CONF_OPENING_TIME = 10, CONF_CLOSING_TIME = 8,
      CONF_TILT_COMMAND_OPEN = None, CONF_TILT_COMMAND_CLOSE = None,
      CONF_TILT_COMMAND_STOP = None, CONF_TILT_OPENING_TIME = 0, CONF_TILT_CLOSING_TIME = 0\<rparr>"

definition closing_at_40 :: saved_state where
  "closing_at_40 =
     \<lparr>saved_label = ''closing'', ATTR_CURRENT_POSITION = Some 40, ATTR_CURRENT_TILT_POSITION = None\<rparr>"

section \<open>Properties\<close>

subsection \<open>Unfolding and evaluation\<close>

lemmas axis_defs =
  async_open_cover_def async_close_cover_def async_stop_cover_def async_set_cover_position_def
  async_send_packet_def listeners_start_def stop_and_update_def listeners_stop_def
  update_position_def hass_track_def hass_unsub_def fire_tracking_interval_def
  fire_travel_duration_def async_track_cover_position_def async_track_travel_duration_def
  POSITION_MIN_def POSITION_MAX_def COVER_DEBUG_def py_round_def Let_def

lemmas sample_defs =
  sample_axis_def quick_axis_def subcover_init_def shipped_def device_up_def device_down_def
  shipped_device_down_def to_position_def final_def outcome_def view_def events_def handles_def

lemma features_open_close:
  "supported_features (BroadlinkCover_init example_flags open_close_config) = 3"
  by (simp add: BroadlinkCover_init_def example_flags_def open_close_config_def truthy_def Let_def)

subsection \<open>Feature bits\<close>

lemma and_or_absent: "(a::int) AND c = 0 \<Longrightarrow> b AND c = 0 \<Longrightarrow> (a OR b) AND c = 0"
  by (simp add: bit.conj_disj_distrib2)

lemma and_or_self: "((a::int) OR b) AND a = a" "(b OR a) AND a = a"
  by (rule bit_eqI, auto simp: bit_and_iff bit_or_iff)+

lemma gated_call_is_noop:
  "supported_features c AND flag_of K svc = 0 \<Longrightarrow> call K e now svc c = Inr (c, [])"
  by (cases svc)
     (simp_all add: BroadlinkCover_async_close_cover_def BroadlinkCover_async_close_cover_tilt_def
        BroadlinkCover_async_open_cover_def BroadlinkCover_async_open_cover_tilt_def
        BroadlinkCover_async_stop_cover_def BroadlinkCover_async_stop_cover_tilt_def
        BroadlinkCover_async_set_cover_position_def BroadlinkCover_async_set_cover_tilt_position_def)

subsection \<open>The helpers of an axis, one by one\<close>

lemma listeners_stop_eq:
  "listeners_stop s =
     (case unsub_tracking_interval_listener s of
        None \<Rightarrow> (False, s)
      | Some i \<Rightarrow>
          (True, s\<lparr>hass_timers :=
                     (case unsub_travel_duration_listener s of
                        None \<Rightarrow> filter (\<lambda>kt. fst kt \<noteq> i) (hass_timers s)
                      | Some j \<Rightarrow> filter (\<lambda>kt. fst kt \<noteq> j) (filter (\<lambda>kt. fst kt \<noteq> i) (hass_timers s))),
                   unsub_tracking_interval_listener := None,
                   unsub_travel_duration_listener := None\<rparr>))"
  by (simp add: listeners_stop_def hass_unsub_def Let_def split: option.splits)

lemma core_listeners_stop: "core (snd (listeners_stop s)) = core s"
  by (simp add: listeners_stop_eq core_def split: option.splits)

lemma tracking_listeners_stop:
  "unsub_tracking_interval_listener (snd (listeners_stop s)) = None"
  by (auto simp: listeners_stop_eq split: option.splits)

lemma update_position_cases:
  assumes "update_position now s = Inr s'"
  obtains "s' = s"
  | p where "POSITION_MIN \<le> p" "p \<le> POSITION_MAX" "position_start s \<noteq> None"
      "s' = s\<lparr>position := Some p, attr_closed := Some (p \<le> POSITION_MIN)\<rparr>"
proof (cases "position_start s")
  case None
  with assms have "s' = s" by (simp add: update_position_def)
  then show ?thesis by (rule that(1))
next
  case (Some start)
  show ?thesis
  proof (cases "travel_time_start s")
    case None
    with Some assms have "s' = s" by (simp add: update_position_def)
    then show ?thesis by (rule that(1))
  next
    case t0: (Some t0)
    show ?thesis
    proof (cases "speed s")
      case None
      with Some t0 assms show ?thesis by (simp add: update_position_def)
    next
      case v: (Some v)
      define p where "p = max POSITION_MIN (min (start + py_round ((now - t0) * v)) POSITION_MAX)"
      have "POSITION_MIN \<le> p" "p \<le> POSITION_MAX"
        by (simp_all add: p_def POSITION_MIN_def POSITION_MAX_def)
      moreover have "position_start s \<noteq> None" using Some by simp
      moreover have "s' = s\<lparr>position := Some p, attr_closed := Some (p \<le> POSITION_MIN)\<rparr>"
        using Some t0 v assms by (simp add: update_position_def Let_def p_def)
      ultimately show ?thesis by (rule that(2))
    qed
  qed
qed

lemma update_position_total:
  "position_start s \<noteq> None \<longrightarrow> speed s \<noteq> None \<Longrightarrow> \<exists>s'. update_position now s = Inr s'"
  by (auto simp: update_position_def Let_def split: option.splits)

text \<open>What the reconcile step leaves alone and what it may change.\<close>

lemma stop_and_update_fields:
  assumes "stop_and_update now s = Inr s'"
  shows "status s' = status s" "position_set s' = position_set s" "position_start s' = position_start s"
    "speed s' = speed s" "travel_time_start s' = travel_time_start s" "hass_next s' = hass_next s"
    "opening_speed s' = opening_speed s" "closing_speed s' = closing_speed s"
    "opening_time s' = opening_time s" "closing_time s' = closing_time s"
    "command_open s' = command_open s" "command_close s' = command_close s"
    "command_stop s' = command_stop s" "is_tilt s' = is_tilt s"
    "position s' = position s \<or> (position_start s \<noteq> None \<and> in_range (position s') \<and> position s' \<noteq> None)"
    "unsub_tracking_interval_listener s' = None"
    "set (hass_timers s') \<subseteq> set (hass_timers s)"
proof -
  obtain b s1 where ls: "listeners_stop s = (b, s1)" by (cases "listeners_stop s")
  have c1: "core s1 = core s" using core_listeners_stop [of s] ls by simp
  have n1: "unsub_tracking_interval_listener s1 = None"
    using ls by (auto simp: listeners_stop_eq split: option.splits)
  have t1: "set (hass_timers s1) \<subseteq> set (hass_timers s)"
    using ls by (auto simp: listeners_stop_eq split: option.splits)
  have "s' = s1 \<or> (\<exists>p. POSITION_MIN \<le> p \<and> p \<le> POSITION_MAX \<and> position_start s1 \<noteq> None
          \<and> s' = s1\<lparr>position := Some p, attr_closed := Some (p \<le> POSITION_MIN)\<rparr>)"
  proof (cases b)
    case True
    with assms ls have "update_position now s1 = Inr s'" by (simp add: stop_and_update_def)
    then show ?thesis by (rule update_position_cases) auto
  next
    case False
    with assms ls show ?thesis by (simp add: stop_and_update_def)
  qed
  then show "status s' = status s" "position_set s' = position_set s" "position_start s' = position_start s"
    "speed s' = speed s" "travel_time_start s' = travel_time_start s" "hass_next s' = hass_next s"
    "opening_speed s' = opening_speed s" "closing_speed s' = closing_speed s"
    "opening_time s' = opening_time s" "closing_time s' = closing_time s"
    "command_open s' = command_open s" "command_close s' = command_close s"
    "command_stop s' = command_stop s" "is_tilt s' = is_tilt s"
    "position s' = position s \<or> (position_start s \<noteq> None \<and> in_range (position s') \<and> position s' \<noteq> None)"
    "unsub_tracking_interval_listener s' = None"
    "set (hass_timers s') \<subseteq> set (hass_timers s)"
    using c1 n1 t1 by (auto simp: core_def in_range_def)
qed

lemma stop_and_update_total:
  "position_start s \<noteq> None \<longrightarrow> speed s \<noteq> None \<Longrightarrow> \<exists>s'. stop_and_update now s = Inr s'"
  using update_position_total [of "snd (listeners_stop s)" now] core_listeners_stop [of s]
  by (cases "listeners_stop s") (auto simp: stop_and_update_def core_def)

lemma listeners_start_eq:
  "listeners_start now s =
     (case stop_and_update now s of
        Inl err \<Rightarrow> Inl err
      | Inr s1 \<Rightarrow>
          (case position s1 of
             None \<Rightarrow>
               Inr (begun now (direction_speed s1)
                      (if status s1 = Some COVER_CLOSING then POSITION_MAX else POSITION_MIN)
                      (if status s1 = Some COVER_CLOSING then closing_time s1 else opening_time s1) s1)
           | Some p \<Rightarrow>
               (case position_set s1 of
                  None \<Rightarrow> Inl TypeError
                | Some target \<Rightarrow>
                    if direction_speed s1 = 0 then Inl ZeroDivisionError
                    else Inr (begun now (direction_speed s1) p
                                \<bar>of_int (target - p) / direction_speed s1\<bar> s1))))"
proof (cases "stop_and_update now s")
  case (Inl err)
  then show ?thesis by (simp add: listeners_start_def)
next
  case (Inr s1)
  show ?thesis
  proof (cases "position s1")
    case None
    then show ?thesis
      unfolding listeners_start_def Inr
      by (simp add: Let_def hass_track_def begun_def direction_speed_def)
  next
    case (Some p)
    show ?thesis
    proof (cases "position_set s1")
      case None
      with Some show ?thesis
        unfolding listeners_start_def Inr by (simp add: Let_def)
    next
      case tg: (Some target)
      show ?thesis
        unfolding listeners_start_def Inr
        using Some tg by (simp add: Let_def hass_track_def begun_def direction_speed_def)
    qed
  qed
qed

subsection \<open>Subscriptions\<close>

lemma timers_ok_update_position:
  "update_position now s = Inr s' \<Longrightarrow> timers_ok s' = timers_ok s"
  by (erule update_position_cases) (auto simp: timers_ok_def)

lemma timers_ok_listeners_stop:
  "timers_ok s \<Longrightarrow> timers_ok (snd (listeners_stop s))"
  by (auto simp: listeners_stop_eq timers_ok_def list_all_iff distinct_map_filter split: option.splits)

lemma timers_ok_stop_and_update:
  assumes "timers_ok s" "stop_and_update now s = Inr s'"
  shows "timers_ok s' \<and> unsub_tracking_interval_listener s' = None"
proof -
  obtain b s1 where ls: "listeners_stop s = (b, s1)" by (cases "listeners_stop s")
  have ok1: "timers_ok s1" using timers_ok_listeners_stop [OF assms(1)] ls by simp
  have n1: "unsub_tracking_interval_listener s1 = None" using tracking_listeners_stop [of s] ls by simp
  show ?thesis
  proof (cases b)
    case True
    with assms(2) ls have up: "update_position now s1 = Inr s'" by (simp add: stop_and_update_def)
    from up show ?thesis
      by (rule update_position_cases) (use ok1 n1 timers_ok_update_position [OF up] in auto)
  next
    case False
    with assms(2) ls have "s' = s1" by (simp add: stop_and_update_def)
    with ok1 n1 show ?thesis by simp
  qed
qed

lemma begun_fields:
  "status (begun now v st d s) = status s"
  "position (begun now v st d s) = position s"
  "position_set (begun now v st d s) = position_set s"
  "position_start (begun now v st d s) = Some st"
  "speed (begun now v st d s) = Some v"
  "travel_time_start (begun now v st d s) = Some now"
  "travel_time_stop (begun now v st d s) = Some (now + d)"
  "opening_speed (begun now v st d s) = opening_speed s"
  "closing_speed (begun now v st d s) = closing_speed s"
  "opening_time (begun now v st d s) = opening_time s"
  "closing_time (begun now v st d s) = closing_time s"
  "command_open (begun now v st d s) = command_open s"
  "command_close (begun now v st d s) = command_close s"
  "command_stop (begun now v st d s) = command_stop s"
  "is_tilt (begun now v st d s) = is_tilt s"
  "unsub_travel_duration_listener (begun now v st d s) = Some (hass_next s)"
  "hass_timers (begun now v st d s) \<noteq> []"
  by (simp_all add: begun_def)

lemma timers_ok_begun:
  assumes "timers_ok s" "unsub_tracking_interval_listener s = None"
  shows "timers_ok (begun now v st d s)"
proof (cases "2 < d")
  case True
  with assms show ?thesis
    by (fastforce simp: timers_ok_def begun_def list_all_iff less_Suc_eq)
next
  case False
  with assms show ?thesis
    by (fastforce simp: timers_ok_def begun_def list_all_iff less_Suc_eq)
qed

text \<open>What beginning a traverse establishes, from a state whose status is already the
  direction of travel.\<close>

lemma listeners_start_cases:
  assumes "listeners_start now s = Inr s'"
  obtains s1 v st d where "stop_and_update now s = Inr s1" "s' = begun now v st d s1"
    "position s1 = None \<and> in_range (Some st) \<or> position s1 = Some st"
proof -
  from assms obtain s1 where s1: "stop_and_update now s = Inr s1"
    by (auto simp: listeners_start_eq split: sum.splits)
  show ?thesis
  proof (cases "position s1")
    case None
    have eq: "s' = begun now (direction_speed s1)
                (if status s1 = Some COVER_CLOSING then POSITION_MAX else POSITION_MIN)
                (if status s1 = Some COVER_CLOSING then closing_time s1 else opening_time s1) s1"
      using assms s1 None by (simp add: listeners_start_eq)
    show ?thesis
      by (rule that [OF s1 eq]) (simp add: None in_range_def POSITION_MIN_def POSITION_MAX_def)
  next
    case (Some p)
    from assms s1 Some obtain target where tg: "position_set s1 = Some target"
      and nz: "direction_speed s1 \<noteq> 0"
      by (auto simp: listeners_start_eq split: option.splits if_splits)
    have eq: "s' = begun now (direction_speed s1) p \<bar>of_int (target - p) / direction_speed s1\<bar> s1"
      using assms s1 Some tg nz by (simp add: listeners_start_eq)
    show ?thesis
      by (rule that [OF s1 eq]) (simp add: Some)
  qed
qed

lemma listeners_start_inv:
  assumes start: "listeners_start now s = Inr s'"
    and inv: "timers_ok s" "ranges_ok s" "wired s" and mv: "moving s"
  shows "timers_ok s'" "ranges_ok s'" "wired s'" "status_ok s'" "status_ok_sent s'"
    "status s' = status s" "position_set s' = position_set s"
proof -
  from start obtain s1 v st d where s1: "stop_and_update now s = Inr s1"
    and s': "s' = begun now v st d s1"
    and st: "position s1 = None \<and> in_range (Some st) \<or> position s1 = Some st"
    by (rule listeners_start_cases)
  note f = stop_and_update_fields [OF s1]
  have ok1: "timers_ok s1" "unsub_tracking_interval_listener s1 = None"
    using timers_ok_stop_and_update [OF inv(1) s1] by simp_all
  show "timers_ok s'" unfolding s' using ok1 by (rule timers_ok_begun)
  have r1: "in_range (position s1)"
    using f(15) inv(2) by (auto simp: ranges_ok_def)
  show "ranges_ok s'"
    using r1 st inv(2) f(2) by (auto simp: s' ranges_ok_def begun_fields)
  show "wired s'"
    using inv(3) f(7,8) by (simp add: s' wired_def begun_fields)
  show "status s' = status s" by (simp add: s' begun_fields f(1))
  show "position_set s' = position_set s" by (simp add: s' begun_fields f(2))
  show "status_ok s'"
    using mv f(1) by (auto simp: s' status_ok_def in_progress_def moving_def terminal_def begun_fields)
  show "status_ok_sent s'"
    by (simp add: s' status_ok_sent_def in_progress_def begun_fields)
qed

lemma listeners_start_total:
  assumes "wired s" "position_set s \<noteq> None"
  shows "\<exists>s'. listeners_start now s = Inr s'"
proof -
  from assms(1) obtain s1 where s1: "stop_and_update now s = Inr s1"
    using stop_and_update_total [of s now] by (auto simp: wired_def)
  note f = stop_and_update_fields [OF s1]
  have "direction_speed s1 \<noteq> 0"
    using assms(1) f(7,8) by (simp add: direction_speed_def wired_def)
  moreover have "position_set s1 \<noteq> None" using assms(2) f(2) by simp
  ultimately show ?thesis
    by (auto simp: listeners_start_eq s1 split: option.splits)
qed

subsection \<open>The commands and callbacks, case by case\<close>

lemma send_succeeds_ok: "send_succeeds (e, now, a) \<Longrightarrow> fst (async_send_packet e p)"
  by (auto simp: send_succeeds_def async_send_packet_def split: option.splits)

lemma open_cases:
  assumes "async_open_cover e now s = Inr (s', ev)"
  shows "s' = s \<or> listeners_start now (s\<lparr>status := Some COVER_OPENING, position_set := Some POSITION_MAX\<rparr>) = Inr s'"
  using assms by (auto simp: async_open_cover_def split: prod.splits if_splits sum.splits)

lemma close_cases:
  assumes "async_close_cover e now s = Inr (s', ev)"
  shows "s' = s \<or> listeners_start now (s\<lparr>status := Some COVER_CLOSING, position_set := Some POSITION_MIN\<rparr>) = Inr s'"
  using assms by (auto simp: async_close_cover_def split: prod.splits if_splits sum.splits)

lemma stop_cases:
  assumes "async_stop_cover e now s = Inr (s', ev)"
  shows "s' = s \<or> (\<exists>s1. stop_and_update now s = Inr s1 \<and>
           s' = s1\<lparr>status := Some (if position s1 = Some POSITION_MIN then COVER_CLOSED else COVER_OPENED),
                    position_set := position s1, position_start := None\<rparr>)"
  using assms by (auto simp: async_stop_cover_def split: prod.splits if_splits sum.splits)

lemma set_position_cases:
  assumes "async_set_cover_position e now kw s = Inr (s', ev, r)"
  shows "s' = s \<or>
    (\<exists>target p. position s = Some p \<and> POSITION_MIN < target \<and> target < POSITION_MAX \<and>
       ((\<not> fst (async_send_packet e (if target < p then command_close s else command_open s)) \<and>
          s' = s\<lparr>position_set := Some target,
                  status := Some (if target < p then COVER_CLOSING else COVER_OPENING)\<rparr>)
        \<or> listeners_start now
             (s\<lparr>position_set := Some target,
                 status := Some (if target < p then COVER_CLOSING else COVER_OPENING)\<rparr>) = Inr s'))"
proof -
  obtain x where x: "(if is_tilt s then ATTR_TILT_POSITION kw else ATTR_POSITION kw) = Some x"
    using assms by (cases "if is_tilt s then ATTR_TILT_POSITION kw else ATTR_POSITION kw")
      (simp_all add: async_set_cover_position_def)
  define target where "target = max POSITION_MIN (min (py_round x) POSITION_MAX)"
  have range: "POSITION_MIN \<le> target" "target \<le> POSITION_MAX"
    by (simp_all add: target_def POSITION_MIN_def POSITION_MAX_def)
  show ?thesis
  proof (cases "target = POSITION_MIN \<or> target = POSITION_MAX \<or> position s = None \<or> position s = Some target")
    case True
    then have "s' = s"
      using assms x
      by (auto simp: async_set_cover_position_def Let_def target_def [symmetric] split: option.splits if_splits)
    then show ?thesis by simp
  next
    case False
    then obtain p where p: "position s = Some p" "p \<noteq> target" by auto
    from False range have strict: "POSITION_MIN < target" "target < POSITION_MAX" by auto
    obtain ok evs where send: "async_send_packet e (if target < p then command_close s else command_open s) = (ok, evs)"
      by (cases "async_send_packet e (if target < p then command_close s else command_open s)")
    have main: "(\<not> fst (async_send_packet e (if target < p then command_close s else command_open s)) \<and>
          s' = s\<lparr>position_set := Some target,
                  status := Some (if target < p then COVER_CLOSING else COVER_OPENING)\<rparr>)
        \<or> listeners_start now
             (s\<lparr>position_set := Some target,
                 status := Some (if target < p then COVER_CLOSING else COVER_OPENING)\<rparr>) = Inr s'"
      using assms x p False send
      by (auto simp: async_set_cover_position_def Let_def target_def [symmetric] split: if_splits sum.splits)
    show ?thesis
      by (rule disjI2, rule exI [of _ target], rule exI [of _ p]) (use p(1) strict main in blast)
  qed
qed

lemma tick_cases:
  assumes "fire_tracking_interval now i s = Inr (s', ev)"
  shows "s' = s \<or> update_position now s = Inr s'"
  using assms
  by (auto simp: fire_tracking_interval_def async_track_cover_position_def
        split: option.splits timer.splits sum.splits)

lemma travel_duration_cases:
  assumes "async_track_travel_duration e now s = Inr (s', ev)"
  obtains s2 pos where "update_position now (snd (listeners_stop s)) = Inr s2"
    "travel_time_start s2 \<noteq> None"
    "pos = (if position_set s2 = Some POSITION_MIN then Some POSITION_MIN
            else if position_set s2 = Some POSITION_MAX then Some POSITION_MAX
            else position s2)"
    "s' = s2\<lparr>position := pos, position_start := None,
             status := Some (if pos = Some POSITION_MIN then COVER_CLOSED else COVER_OPENED)\<rparr>"
proof -
  from assms obtain s2 where s2: "update_position now (snd (listeners_stop s)) = Inr s2"
    by (auto simp: async_track_travel_duration_def Let_def split: sum.splits)
  from assms s2 obtain t0 where t0: "travel_time_start s2 = Some t0"
    by (auto simp: async_track_travel_duration_def Let_def split: option.splits)
  define pos where "pos = (if position_set s2 = Some POSITION_MIN then Some POSITION_MIN
            else if position_set s2 = Some POSITION_MAX then Some POSITION_MAX
            else position s2)"
  have res: "Inr ((if position_set s2 = Some POSITION_MIN then s2\<lparr>position := Some POSITION_MIN\<rparr>
             else if position_set s2 = Some POSITION_MAX then s2\<lparr>position := Some POSITION_MAX\<rparr>
             else s2)
            \<lparr>position_start := None,
              status := Some (if position
                   ((if position_set s2 = Some POSITION_MIN then s2\<lparr>position := Some POSITION_MIN\<rparr>
                     else if position_set s2 = Some POSITION_MAX then s2\<lparr>position := Some POSITION_MAX\<rparr>
                     else s2)\<lparr>position_start := None\<rparr>) = Some POSITION_MIN
                 then COVER_CLOSED else COVER_OPENED)\<rparr>,
            (if position_set s \<noteq> Some POSITION_MIN \<and> position_set s \<noteq> Some POSITION_MAX
             then snd (async_send_packet e (command_stop s)) else []) @ [WriteHaState])
          = (Inr (s', ev) :: error + subcover \<times> event list)"
    using assms by (simp add: async_track_travel_duration_def Let_def s2 t0)
  consider (lo) "position_set s2 = Some POSITION_MIN"
    | (hi) "position_set s2 \<noteq> Some POSITION_MIN" "position_set s2 = Some POSITION_MAX"
    | (mid) "position_set s2 \<noteq> Some POSITION_MIN" "position_set s2 \<noteq> Some POSITION_MAX"
    by blast
  then have "s' = s2\<lparr>position := pos, position_start := None,
             status := Some (if pos = Some POSITION_MIN then COVER_CLOSED else COVER_OPENED)\<rparr>"
  proof cases
    case lo
    with res show ?thesis by (simp add: pos_def)
  next
    case hi
    with res show ?thesis by (simp add: pos_def)
  next
    case mid
    with res show ?thesis by (simp add: pos_def)
  qed
  with s2 t0 pos_def show ?thesis by (intro that [of s2 pos]) simp_all
qed

lemma end_cases:
  assumes "fire_travel_duration e now i s = Inr (s', ev)"
  shows "s' = s \<or> (hass_timers s \<noteq> [] \<and> async_track_travel_duration e now (hass_unsub i s) = Inr (s', ev))"
  using assms
  by (auto simp: fire_travel_duration_def split: option.splits timer.splits if_splits)

subsection \<open>Each step keeps the invariant\<close>

lemma listeners_start_configuration:
  assumes "listeners_start now s = Inr s'"
  shows "configuration s' = configuration s"
proof -
  from assms obtain s1 v st d where s1: "stop_and_update now s = Inr s1" and s': "s' = begun now v st d s1"
    by (rule listeners_start_cases)
  show ?thesis
    using stop_and_update_fields [OF s1] by (simp add: s' configuration_def begun_fields)
qed

lemma begin_traverse_inv:
  assumes start: "listeners_start now (s\<lparr>status := Some dir, position_set := Some target\<rparr>) = Inr s'"
    and dir: "dir = COVER_OPENING \<or> dir = COVER_CLOSING"
    and target: "POSITION_MIN \<le> target" "target \<le> POSITION_MAX"
    and inv: "axis_inv s"
  shows "axis_inv s'" "status_ok_sent s'" "configuration s' = configuration s"
proof -
  let ?s0 = "s\<lparr>status := Some dir, position_set := Some target\<rparr>"
  have t0: "timers_ok ?s0" using inv by (simp add: axis_inv_def timers_ok_def)
  have r0: "ranges_ok ?s0" using inv target by (simp add: axis_inv_def ranges_ok_def in_range_def)
  have w0: "wired ?s0" using inv by (simp add: axis_inv_def wired_def)
  have m0: "moving ?s0" using dir by (auto simp: moving_def)
  note r = listeners_start_inv [OF start t0 r0 w0 m0]
  show "axis_inv s'" using r(1-4) by (simp add: axis_inv_def)
  show "status_ok_sent s'" by (rule r(5))
  show "configuration s' = configuration s"
    using listeners_start_configuration [OF start] by (simp add: configuration_def)
qed

lemma open_inv:
  assumes "async_open_cover e now s = Inr (s', ev)" "axis_inv s"
  shows "axis_inv s'" "status_ok_sent s \<longrightarrow> status_ok_sent s'" "configuration s' = configuration s"
  using open_cases [OF assms(1)] assms(2)
    begin_traverse_inv [where now = now and s = s and dir = COVER_OPENING and target = POSITION_MAX and s' = s']
  by (auto simp: POSITION_MIN_def POSITION_MAX_def)

lemma close_inv:
  assumes "async_close_cover e now s = Inr (s', ev)" "axis_inv s"
  shows "axis_inv s'" "status_ok_sent s \<longrightarrow> status_ok_sent s'" "configuration s' = configuration s"
  using close_cases [OF assms(1)] assms(2)
    begin_traverse_inv [where now = now and s = s and dir = COVER_CLOSING and target = POSITION_MIN and s' = s']
  by (auto simp: POSITION_MIN_def POSITION_MAX_def)

lemma stop_inv:
  assumes "async_stop_cover e now s = Inr (s', ev)" "axis_inv s"
  shows "axis_inv s'" "status_ok_sent s \<longrightarrow> status_ok_sent s'" "configuration s' = configuration s"
proof -
  from stop_cases [OF assms(1)]
  consider (same) "s' = s"
    | (stopped) s1 where "stop_and_update now s = Inr s1"
        "s' = s1\<lparr>status := Some (if position s1 = Some POSITION_MIN then COVER_CLOSED else COVER_OPENED),
                 position_set := position s1, position_start := None\<rparr>"
    by blast
  then have "axis_inv s' \<and> (status_ok_sent s \<longrightarrow> status_ok_sent s') \<and> configuration s' = configuration s"
  proof cases
    case same
    with assms(2) show ?thesis by simp
  next
    case stopped
    note f = stop_and_update_fields [OF stopped(1)]
    have t1: "timers_ok s1"
      using timers_ok_stop_and_update [OF _ stopped(1)] assms(2) by (simp add: axis_inv_def)
    have r1: "in_range (position s1)"
      using f(15) assms(2) by (auto simp: axis_inv_def ranges_ok_def)
    have t: "timers_ok s'" using t1 by (simp add: stopped(2) timers_ok_def)
    have r: "ranges_ok s'" using r1 by (simp add: stopped(2) ranges_ok_def in_range_def)
    have w: "wired s'"
      using assms(2) f(5,7,8,17) by (auto simp: stopped(2) axis_inv_def wired_def)
    have st: "status_ok s'"
      by (simp add: stopped(2) status_ok_def in_progress_def terminal_def moving_def)
    have sent: "status_ok_sent s'"
      by (simp add: stopped(2) status_ok_sent_def in_progress_def terminal_def moving_def)
    have c: "configuration s' = configuration s"
      using f by (simp add: stopped(2) configuration_def)
    from t r w st sent c show ?thesis by (simp add: axis_inv_def)
  qed
  then show "axis_inv s'" "status_ok_sent s \<longrightarrow> status_ok_sent s'" "configuration s' = configuration s"
    by simp_all
qed

lemma set_position_inv:
  assumes "async_set_cover_position e now kw s = Inr (s', ev, r)" "axis_inv s"
  shows "axis_inv s'" "status_ok_sent s \<and> send_succeeds (e, now, SetCoverPosition kw) \<longrightarrow> status_ok_sent s'"
    "configuration s' = configuration s"
proof -
  from set_position_cases [OF assms(1)]
  consider (same) "s' = s"
    | (failed) target p where "position s = Some p" "POSITION_MIN < target" "target < POSITION_MAX"
        "\<not> fst (async_send_packet e (if target < p then command_close s else command_open s))"
        "s' = s\<lparr>position_set := Some target,
                 status := Some (if target < p then COVER_CLOSING else COVER_OPENING)\<rparr>"
    | (started) target p where "position s = Some p" "POSITION_MIN < target" "target < POSITION_MAX"
        "listeners_start now
             (s\<lparr>position_set := Some target,
                 status := Some (if target < p then COVER_CLOSING else COVER_OPENING)\<rparr>) = Inr s'"
    by blast
  then have "axis_inv s'
      \<and> (status_ok_sent s \<and> send_succeeds (e, now, SetCoverPosition kw) \<longrightarrow> status_ok_sent s')
      \<and> configuration s' = configuration s"
  proof cases
    case same
    with assms(2) show ?thesis by simp
  next
    case failed
    have "\<not> send_succeeds (e, now, SetCoverPosition kw)"
      using failed(4) send_succeeds_ok by blast
    moreover have "axis_inv s'"
      using assms(2) failed(2,3)
      by (auto simp: failed(5) axis_inv_def timers_ok_def ranges_ok_def in_range_def wired_def
            status_ok_def in_progress_def moving_def terminal_def)
    moreover have "configuration s' = configuration s"
      by (simp add: failed(5) configuration_def)
    ultimately show ?thesis by simp
  next
    case started
    have eq: "s\<lparr>position_set := Some target,
                 status := Some (if target < p then COVER_CLOSING else COVER_OPENING)\<rparr>
              = s\<lparr>status := Some (if target < p then COVER_CLOSING else COVER_OPENING),
                  position_set := Some target\<rparr>"
      by simp
    show ?thesis
      using begin_traverse_inv [OF started(4) [unfolded eq] _ _ _ assms(2)] started(2,3)
      by simp
  qed
  then show "axis_inv s'"
    "status_ok_sent s \<and> send_succeeds (e, now, SetCoverPosition kw) \<longrightarrow> status_ok_sent s'"
    "configuration s' = configuration s"
    by simp_all
qed

lemma update_position_inv:
  assumes "update_position now s = Inr s'" "axis_inv s"
  shows "axis_inv s' \<and> (status_ok_sent s \<longrightarrow> status_ok_sent s') \<and> configuration s' = configuration s"
  using assms(1)
proof (cases rule: update_position_cases)
  case 1
  with assms(2) show ?thesis by simp
next
  case (2 p)
  have "axis_inv s'"
    using assms(2) 2(1-3)
    by (auto simp: 2(4) axis_inv_def timers_ok_def ranges_ok_def in_range_def wired_def
          status_ok_def in_progress_def moving_def terminal_def)
  moreover have "status_ok_sent s \<longrightarrow> status_ok_sent s'"
    using 2(3) by (auto simp: 2(4) status_ok_sent_def in_progress_def moving_def terminal_def)
  moreover have "configuration s' = configuration s" by (simp add: 2(4) configuration_def)
  ultimately show ?thesis by simp
qed

lemma tick_inv:
  assumes "fire_tracking_interval now i s = Inr (s', ev)" "axis_inv s"
  shows "axis_inv s'" "status_ok_sent s \<longrightarrow> status_ok_sent s'" "configuration s' = configuration s"
  using tick_cases [OF assms(1)] assms(2) update_position_inv [of now s s']
  by blast+

lemma timers_ok_hass_unsub: "timers_ok s \<Longrightarrow> timers_ok (hass_unsub i s)"
  by (auto simp: timers_ok_def hass_unsub_def list_all_iff distinct_map_filter)

lemma travel_duration_inv:
  assumes run: "async_track_travel_duration e now s = Inr (s', ev)"
    and inv: "timers_ok s" "ranges_ok s" "wired s"
  shows "axis_inv s'" "status_ok_sent s'" "configuration s' = configuration s"
    "set (hass_timers s') \<subseteq> set (hass_timers s)"
proof -
  from run obtain s2 pos where s2: "update_position now (snd (listeners_stop s)) = Inr s2"
    and pos: "pos = (if position_set s2 = Some POSITION_MIN then Some POSITION_MIN
            else if position_set s2 = Some POSITION_MAX then Some POSITION_MAX
            else position s2)"
    and s': "s' = s2\<lparr>position := pos, position_start := None,
             status := Some (if pos = Some POSITION_MIN then COVER_CLOSED else COVER_OPENED)\<rparr>"
    by (rule travel_duration_cases)
  let ?s1 = "snd (listeners_stop s)"
  have c1: "core ?s1 = core s" by (rule core_listeners_stop)
  have t1: "timers_ok ?s1" using inv(1) by (rule timers_ok_listeners_stop)
  have sub1: "set (hass_timers ?s1) \<subseteq> set (hass_timers s)"
    by (auto simp: listeners_stop_eq split: option.splits)
  have r1: "ranges_ok ?s1" using inv(2) c1 by (simp add: ranges_ok_def core_def)
  have w1: "wired ?s1" using inv(3) c1 sub1 by (auto simp: wired_def core_def)
  have cf1: "configuration ?s1 = configuration s" using c1 by (simp add: configuration_def core_def)
  from s2 have "timers_ok s2 \<and> ranges_ok s2 \<and> wired s2 \<and> configuration s2 = configuration s
      \<and> hass_timers s2 = hass_timers ?s1"
  proof (cases rule: update_position_cases)
    case 1
    with t1 r1 w1 cf1 show ?thesis by simp
  next
    case (2 p)
    with t1 r1 w1 cf1 show ?thesis
      by (auto simp: timers_ok_def ranges_ok_def in_range_def wired_def configuration_def)
  qed
  then have t2: "timers_ok s2" and r2: "ranges_ok s2" and w2: "wired s2"
    and cf2: "configuration s2 = configuration s" and h2: "hass_timers s2 = hass_timers ?s1"
    by simp_all
  have rp: "in_range pos"
    using r2 by (auto simp: pos ranges_ok_def in_range_def POSITION_MIN_def POSITION_MAX_def)
  have "timers_ok s'" using t2 by (simp add: s' timers_ok_def)
  moreover have "ranges_ok s'" using r2 rp by (simp add: s' ranges_ok_def in_range_def)
  moreover have "wired s'" using w2 by (simp add: s' wired_def)
  moreover have "status_ok s'"
    by (simp add: s' status_ok_def in_progress_def moving_def terminal_def)
  ultimately show "axis_inv s'" by (simp add: axis_inv_def)
  show "status_ok_sent s'"
    by (simp add: s' status_ok_sent_def in_progress_def moving_def terminal_def)
  show "configuration s' = configuration s" using cf2 by (simp add: s' configuration_def)
  show "set (hass_timers s') \<subseteq> set (hass_timers s)" using h2 sub1 by (simp add: s')
qed

lemma end_inv:
  assumes "fire_travel_duration e now i s = Inr (s', ev)" "axis_inv s"
  shows "axis_inv s'" "status_ok_sent s \<longrightarrow> status_ok_sent s'" "configuration s' = configuration s"
proof -
  from end_cases [OF assms(1)]
  consider (same) "s' = s"
    | (fired) "hass_timers s \<noteq> []" "async_track_travel_duration e now (hass_unsub i s) = Inr (s', ev)"
    by blast
  then have "axis_inv s' \<and> (status_ok_sent s \<longrightarrow> status_ok_sent s') \<and> configuration s' = configuration s"
  proof cases
    case same
    with assms(2) show ?thesis by simp
  next
    case fired
    let ?sa = "hass_unsub i s"
    have ta: "timers_ok ?sa" using assms(2) by (simp add: axis_inv_def timers_ok_hass_unsub)
    have ra: "ranges_ok ?sa" using assms(2) by (simp add: axis_inv_def ranges_ok_def hass_unsub_def)
    have wa: "wired ?sa" using assms(2) fired(1) by (auto simp: axis_inv_def wired_def hass_unsub_def)
    have ca: "configuration ?sa = configuration s" by (simp add: configuration_def hass_unsub_def)
    note r = travel_duration_inv [OF fired(2) ta ra wa]
    show ?thesis using r ca by simp
  qed
  then show "axis_inv s'" "status_ok_sent s \<longrightarrow> status_ok_sent s'" "configuration s' = configuration s"
    by simp_all
qed

subsection \<open>Runs\<close>

lemma step_inv:
  assumes "step e now a s = Inr (s', ev)" "axis_inv s"
  shows "axis_inv s'"
    "status_ok_sent s \<and> send_succeeds (e, now, a) \<longrightarrow> status_ok_sent s'"
    "configuration s' = configuration s"
proof -
  have "axis_inv s' \<and> (status_ok_sent s \<and> send_succeeds (e, now, a) \<longrightarrow> status_ok_sent s')
      \<and> configuration s' = configuration s"
  proof (cases a)
    case OpenCover
    with assms open_inv [of e now s s' ev] show ?thesis by simp
  next
    case CloseCover
    with assms close_inv [of e now s s' ev] show ?thesis by simp
  next
    case StopCover
    with assms stop_inv [of e now s s' ev] show ?thesis by simp
  next
    case (SetCoverPosition kw)
    with assms(1) obtain r where "async_set_cover_position e now kw s = Inr (s', ev, r)"
      by (auto split: sum.splits)
    from set_position_inv [OF this assms(2)] SetCoverPosition show ?thesis by simp
  next
    case (TrackingInterval i)
    with assms tick_inv [of now i s s' ev] show ?thesis by simp
  next
    case (TravelDuration i)
    with assms end_inv [of e now i s s' ev] show ?thesis by simp
  qed
  then show "axis_inv s'"
    "status_ok_sent s \<and> send_succeeds (e, now, a) \<longrightarrow> status_ok_sent s'"
    "configuration s' = configuration s"
    by simp_all
qed

lemma run_inv:
  "axis_inv s \<Longrightarrow> run tr s = Inr (s', ev) \<Longrightarrow> axis_inv s' \<and> configuration s' = configuration s"
proof (induction tr arbitrary: s ev)
  case Nil
  then show ?case by simp
next
  case (Cons x tr)
  obtain e now a where x: "x = (e, now, a)" by (cases x)
  from Cons.prems(2) obtain s1 ev1 ev2 where st: "step e now a s = Inr (s1, ev1)"
    and rest: "run tr s1 = Inr (s', ev2)"
    by (auto simp: x split: sum.splits)
  from step_inv [OF st Cons.prems(1)] have "axis_inv s1" "configuration s1 = configuration s"
    by simp_all
  with Cons.IH [OF _ rest] show ?case by simp
qed

lemma run_sent:
  "axis_inv s \<Longrightarrow> status_ok_sent s \<Longrightarrow> list_all send_succeeds tr \<Longrightarrow> run tr s = Inr (s', ev)
     \<Longrightarrow> status_ok_sent s'"
proof (induction tr arbitrary: s ev)
  case Nil
  then show ?case by simp
next
  case (Cons x tr)
  obtain e now a where x: "x = (e, now, a)" by (cases x)
  from Cons.prems(4) obtain s1 ev1 ev2 where st: "step e now a s = Inr (s1, ev1)"
    and rest: "run tr s1 = Inr (s', ev2)"
    by (auto simp: x split: sum.splits)
  from step_inv [OF st Cons.prems(1)] Cons.prems(2,3)
  have "axis_inv s1" "status_ok_sent s1" by (simp_all add: x)
  with Cons.IH [OF _ _ _ rest] Cons.prems(3) show ?case by simp
qed

lemma init_inv:
  "axis_inv (subcover_init c_open c_close c_stop t_open t_close tilted)"
  "status_ok_sent (subcover_init c_open c_close c_stop t_open t_close tilted)"
  by (simp_all add: subcover_init_def axis_inv_def timers_ok_def status_ok_def ranges_ok_def
        wired_def in_range_def in_progress_def moving_def terminal_def status_ok_sent_def
        POSITION_MAX_def)

subsection \<open>No step raises\<close>

lemma travel_duration_total:
  assumes "position_start s \<noteq> None \<longrightarrow> speed s \<noteq> None" "travel_time_start s \<noteq> None"
  shows "\<exists>s' ev. async_track_travel_duration e now s = Inr (s', ev)"
proof -
  let ?s1 = "snd (listeners_stop s)"
  have c1: "core ?s1 = core s" by (rule core_listeners_stop)
  then obtain s2 where s2: "update_position now ?s1 = Inr s2"
    using update_position_total [of ?s1 now] assms(1) by (auto simp: core_def)
  from s2 have "travel_time_start s2 = travel_time_start ?s1"
    by (rule update_position_cases) simp_all
  with c1 assms(2) obtain t0 where "travel_time_start s2 = Some t0"
    by (auto simp: core_def)
  then show ?thesis
    by (simp add: async_track_travel_duration_def Let_def s2)
qed

lemma step_total:
  assumes "axis_inv s" "has_position s (e, now, a)"
  shows "\<exists>s' ev. step e now a s = Inr (s', ev)"
proof -
  from assms(1) have w: "wired s" by (simp add: axis_inv_def)
  show ?thesis
  proof (cases a)
    case OpenCover
    have "wired (s\<lparr>status := Some COVER_OPENING, position_set := Some POSITION_MAX\<rparr>)"
      using w by (simp add: wired_def)
    from listeners_start_total [OF this, of now] show ?thesis
      by (auto simp: OpenCover async_open_cover_def split: prod.splits)
  next
    case CloseCover
    have "wired (s\<lparr>status := Some COVER_CLOSING, position_set := Some POSITION_MIN\<rparr>)"
      using w by (simp add: wired_def)
    from listeners_start_total [OF this, of now] show ?thesis
      by (auto simp: CloseCover async_close_cover_def split: prod.splits)
  next
    case StopCover
    from stop_and_update_total [of s now] w show ?thesis
      by (auto simp: StopCover async_stop_cover_def wired_def split: prod.splits)
  next
    case (SetCoverPosition kw)
    with assms(2) obtain x where x: "(if is_tilt s then ATTR_TILT_POSITION kw else ATTR_POSITION kw) = Some x"
      by auto
    have ls: "\<exists>s'. listeners_start now (s\<lparr>position_set := Some tg, status := Some d\<rparr>) = Inr s'" for tg d
      using w by (intro listeners_start_total) (simp_all add: wired_def)
    have "\<exists>r. async_set_cover_position e now kw s = Inr r"
    proof -
      define target where "target = max POSITION_MIN (min (py_round x) POSITION_MAX)"
      show ?thesis
      proof (cases "target = POSITION_MIN \<or> target = POSITION_MAX \<or> position s = None
                     \<or> position s = Some target")
        case True
        then show ?thesis
          by (auto simp: async_set_cover_position_def x Let_def target_def [symmetric] split: option.splits)
      next
        case False
        then obtain p where p: "position s = Some p" "p \<noteq> target" by auto
        obtain okc evc where sc: "async_send_packet e (command_close s) = (okc, evc)"
          by (cases "async_send_packet e (command_close s)")
        obtain oko evo where so: "async_send_packet e (command_open s) = (oko, evo)"
          by (cases "async_send_packet e (command_open s)")
        obtain s3 where s3: "listeners_start now
            (s\<lparr>position_set := Some target, status := Some COVER_CLOSING\<rparr>) = Inr s3"
          using ls by blast
        obtain s4 where s4: "listeners_start now
            (s\<lparr>position_set := Some target, status := Some COVER_OPENING\<rparr>) = Inr s4"
          using ls by blast
        show ?thesis
          using False p sc so s3 s4
          by (simp add: async_set_cover_position_def x Let_def target_def [symmetric])
      qed
    qed
    then show ?thesis by (auto simp: SetCoverPosition split: sum.splits)
  next
    case (TrackingInterval i)
    from update_position_total [of s now] w show ?thesis
      by (auto simp: TrackingInterval fire_tracking_interval_def async_track_cover_position_def
            wired_def split: option.splits timer.splits)
  next
    case (TravelDuration i)
    show ?thesis
    proof (cases "\<exists>t. map_of (hass_timers s) i = Some (PointInTime t) \<and> t \<le> now")
      case True
      then have ne: "hass_timers s \<noteq> []" by auto
      have "\<exists>s' ev. async_track_travel_duration e now (hass_unsub i s) = Inr (s', ev)"
        using w ne by (intro travel_duration_total) (auto simp: wired_def hass_unsub_def)
      with True show ?thesis
        by (auto simp: TravelDuration fire_travel_duration_def)
    next
      case False
      then show ?thesis
        by (auto simp: TravelDuration fire_travel_duration_def split: option.splits timer.splits)
    qed
  qed
qed

lemma has_position_configuration:
  "configuration s' = configuration s \<Longrightarrow> has_position s' x = has_position s x"
  by (cases "(s, x)" rule: has_position.cases) (auto simp: configuration_def)

lemma run_total:
  "axis_inv s \<Longrightarrow> list_all (has_position s) tr \<Longrightarrow> \<exists>s' ev. run tr s = Inr (s', ev)"
proof (induction tr arbitrary: s)
  case Nil
  then show ?case by simp
next
  case (Cons x tr)
  obtain e now a where x: "x = (e, now, a)" by (cases x)
  from Cons.prems obtain s1 ev1 where st: "step e now a s = Inr (s1, ev1)"
    using step_total [of s e now a] by (auto simp: x)
  from step_inv [OF st Cons.prems(1)] have i1: "axis_inv s1" and c1: "configuration s1 = configuration s"
    by simp_all
  have "list_all (has_position s1) tr"
    using Cons.prems(2) has_position_configuration [OF c1] by (simp add: list_all_iff)
  from Cons.IH [OF i1 this] show ?case by (auto simp: x st)
qed

subsection \<open>Position recomputation\<close>



subsection \<open>A send that fails\<close>


subsection \<open>Set-position to a limit\<close>

text \<open>
  Claim C5 says that a set-position request whose clamped target is 0 delegates to close,
  and one whose target is 100 to open. The code builds the coroutine of
  \<^verbatim>\<open>async_close_cover()\<close> (or \<^verbatim>\<open>async_open_cover()\<close>) and returns it without awaiting
  it, so nothing of it runs: at position 50 a request for 0 leaves the state as it is and
  sends nothing, where closing itself would start a traverse towards 0.
\<close>

theorem set_position_to_limit_runs_nothing:
  "outcome (run [(shipped, 0, OpenCover), (shipped, 5, StopCover)] sample_axis)
     = Some (Some COVER_OPENED, Some 50, Some 50, None, [])
   \<and> (case run [(shipped, 0, OpenCover), (shipped, 5, StopCover)] sample_axis of
        Inl err \<Rightarrow> False
      | Inr (s, ev) \<Rightarrow>
          async_set_cover_position shipped 6 (to_position 0) s = Inr (s, [], ReturnsCloseCoroutine)
          \<and> async_set_cover_position shipped 6 (to_position 100) s = Inr (s, [], ReturnsOpenCoroutine)
          \<and> step shipped 6 (SetCoverPosition (to_position 0)) s = Inr (s, [])
          \<and> outcome (async_close_cover shipped 6 s)
               = Some (Some COVER_CLOSING, Some 50, Some 0, Some 50, [(2, PointInTime 10), (3, TimeInterval 1)]))"
  by (simp add: axis_defs sample_defs)

subsection \<open>Restoring the saved state\<close>

text \<open>
  Claim C7 says that restoring the label "closing" with saved position 40 sets the status
  to Closing and the position to 40. The code does neither: \<^verbatim>\<open>_restore_state\<close> sets
  flags of the entity that no accessor reads, and \<^verbatim>\<open>restore_position\<close> assigns the
  attribute \<^verbatim>\<open>position\<close>, not \<^verbatim>\<open>_position\<close>. No subscription is registered.
\<close>

theorem restore_sets_neither_status_nor_position:
  "supported_features (BroadlinkCover_init example_flags full_config) AND SUPPORT_SET_POSITION example_flags \<noteq> 0
   \<and> status (main (async_added_to_hass example_flags (Some closing_at_40) (BroadlinkCover_init example_flags full_config))) = None
   \<and> position (main (async_added_to_hass example_flags (Some closing_at_40) (BroadlinkCover_init example_flags full_config))) = None
   \<and> attr_position (main (async_added_to_hass example_flags (Some closing_at_40) (BroadlinkCover_init example_flags full_config))) = Some (Some 40)
   \<and> attr_is_closing (async_added_to_hass example_flags (Some closing_at_40) (BroadlinkCover_init example_flags full_config)) = Some True
   \<and> \<not> BroadlinkCover_is_closing (async_added_to_hass example_flags (Some closing_at_40) (BroadlinkCover_init example_flags full_config))
   \<and> BroadlinkCover_current_cover_position example_flags
        (async_added_to_hass example_flags (Some closing_at_40) (BroadlinkCover_init example_flags full_config)) = None
   \<and> hass_timers (main (async_added_to_hass example_flags (Some closing_at_40) (BroadlinkCover_init example_flags full_config))) = []"
  by (simp add: async_added_to_hass_def restore_state_def restore_position_def BroadlinkCover_init_def
        BroadlinkCover_current_cover_position_def BroadlinkCover_current_cover_tilt_position_def
        BroadlinkCover_is_closing_def is_closing_def current_cover_position_def
        example_flags_def full_config_def closing_at_40_def truthy_def subcover_init_def
        STATE_OPENING_def STATE_CLOSING_def STATE_CLOSED_def Let_def)

subsection \<open>Capabilities of an entry with open and close payloads only\<close>

text \<open>
  Claim C8. For separate feature flags and an entry whose only payloads are those of open
  and close (whatever its times), the entity supports open and close, and neither stop nor
  set-position; every service other than open and close, the tilt services among them,
  returns without raising, leaves the entity as it was and emits nothing.
\<close>

theorem open_close_only_capabilities:
  assumes sep: "separate_flags K"
    and payloads: "truthy (CONF_COMMAND_OPEN cfg)" "truthy (CONF_COMMAND_CLOSE cfg)"
      "\<not> truthy (CONF_COMMAND_STOP cfg)" "\<not> truthy (CONF_TILT_COMMAND_OPEN cfg)"
      "\<not> truthy (CONF_TILT_COMMAND_CLOSE cfg)" "\<not> truthy (CONF_TILT_COMMAND_STOP cfg)"
    and feat: "supported_features c = supported_features (BroadlinkCover_init K cfg)"
  shows "supported_features c AND SUPPORT_OPEN K \<noteq> 0
       \<and> supported_features c AND SUPPORT_CLOSE K \<noteq> 0
       \<and> supported_features c AND SUPPORT_STOP K = 0
       \<and> supported_features c AND SUPPORT_SET_POSITION K = 0
       \<and> (svc \<noteq> OpenCoverService \<and> svc \<noteq> CloseCoverService \<longrightarrow> call K e now svc c = Inr (c, []))"
proof -
  have f: "supported_features c = SUPPORT_OPEN K OR SUPPORT_CLOSE K"
    using payloads by (simp add: feat BroadlinkCover_init_def Let_def)
  from sep have nz: "SUPPORT_OPEN K \<noteq> 0" "SUPPORT_CLOSE K \<noteq> 0"
    and oc: "SUPPORT_OPEN K AND SUPPORT_CLOSE K = 0"
    and o: "SUPPORT_OPEN K AND SUPPORT_SET_POSITION K = 0" "SUPPORT_OPEN K AND SUPPORT_STOP K = 0"
      "SUPPORT_OPEN K AND SUPPORT_OPEN_TILT K = 0" "SUPPORT_OPEN K AND SUPPORT_CLOSE_TILT K = 0"
      "SUPPORT_OPEN K AND SUPPORT_STOP_TILT K = 0" "SUPPORT_OPEN K AND SUPPORT_SET_TILT_POSITION K = 0"
    and cl: "SUPPORT_CLOSE K AND SUPPORT_SET_POSITION K = 0" "SUPPORT_CLOSE K AND SUPPORT_STOP K = 0"
      "SUPPORT_CLOSE K AND SUPPORT_OPEN_TILT K = 0" "SUPPORT_CLOSE K AND SUPPORT_CLOSE_TILT K = 0"
      "SUPPORT_CLOSE K AND SUPPORT_STOP_TILT K = 0" "SUPPORT_CLOSE K AND SUPPORT_SET_TILT_POSITION K = 0"
    by (simp_all add: separate_flags_def)
  have can_open: "supported_features c AND SUPPORT_OPEN K \<noteq> 0"
    using nz by (simp add: f and_or_self)
  have can_close: "supported_features c AND SUPPORT_CLOSE K \<noteq> 0"
    using nz by (simp add: f and_or_self)
  have absent: "supported_features c AND flag_of K svc = 0"
    if "svc \<noteq> OpenCoverService" "svc \<noteq> CloseCoverService"
    using that o cl unfolding f by (cases svc) (simp_all add: and_or_absent)
  show ?thesis
    using can_open can_close o(1,2) cl(1,2) absent gated_call_is_noop [of c K svc e now]
    by (simp add: f and_or_absent)
qed

theorem open_close_only_capabilities_witness:
  "supported_features (BroadlinkCover_init example_flags open_close_config) AND SUPPORT_OPEN example_flags \<noteq> 0
   \<and> supported_features (BroadlinkCover_init example_flags open_close_config) AND SUPPORT_STOP example_flags = 0
   \<and> call example_flags shipped 0 StopCoverTiltService (BroadlinkCover_init example_flags open_close_config)
       = Inr (BroadlinkCover_init example_flags open_close_config, [])"
proof -
  have sep: "separate_flags example_flags"
    by (simp add: separate_flags_def example_flags_def)
  have p: "truthy (CONF_COMMAND_OPEN open_close_config)" "truthy (CONF_COMMAND_CLOSE open_close_config)"
      "\<not> truthy (CONF_COMMAND_STOP open_close_config)" "\<not> truthy (CONF_TILT_COMMAND_OPEN open_close_config)"
      "\<not> truthy (CONF_TILT_COMMAND_CLOSE open_close_config)" "\<not> truthy (CONF_TILT_COMMAND_STOP open_close_config)"
    by (simp_all add: open_close_config_def truthy_def)
  show ?thesis
    using open_close_only_capabilities [OF sep p refl, of StopCoverTiltService shipped 0]
    by simp
qed

subsection \<open>Position accessors of the entity\<close>

text \<open>
  Claim C10. The entity's position accessor returns \<^verbatim>\<open>None\<close> whenever the set-position
  flag is not among the supported features, whatever position estimate the main axis
  holds; the tilt accessor does the same with the set-tilt-position flag and the tilt axis.
\<close>

theorem position_hidden_without_flag:
  "(supported_features c AND SUPPORT_SET_POSITION K = 0 \<longrightarrow> BroadlinkCover_current_cover_position K c = None)
   \<and> (supported_features c AND SUPPORT_SET_TILT_POSITION K = 0 \<longrightarrow> BroadlinkCover_current_cover_tilt_position K c = None)"
  by (simp add: BroadlinkCover_current_cover_position_def BroadlinkCover_current_cover_tilt_position_def)

theorem position_hidden_without_flag_witness:
  "current_cover_position (main ((BroadlinkCover_init example_flags open_close_config)
       \<lparr>main := sample_axis\<lparr>position := Some 50\<rparr>, tilt := sample_axis\<lparr>position := Some 30\<rparr>\<rparr>)) = Some 50
   \<and> BroadlinkCover_current_cover_position example_flags ((BroadlinkCover_init example_flags open_close_config)
       \<lparr>main := sample_axis\<lparr>position := Some 50\<rparr>, tilt := sample_axis\<lparr>position := Some 30\<rparr>\<rparr>) = None
   \<and> BroadlinkCover_current_cover_tilt_position example_flags ((BroadlinkCover_init example_flags open_close_config)
       \<lparr>main := sample_axis\<lparr>position := Some 50\<rparr>, tilt := sample_axis\<lparr>position := Some 30\<rparr>\<rparr>) = None"
proof -
  let ?c = "(BroadlinkCover_init example_flags open_close_config)
       \<lparr>main := sample_axis\<lparr>position := Some 50\<rparr>, tilt := sample_axis\<lparr>position := Some 30\<rparr>\<rparr>"
  have f: "supported_features ?c = 3" by (simp add: features_open_close)
  have a: "supported_features ?c AND SUPPORT_SET_POSITION example_flags = 0"
    unfolding f by (simp add: example_flags_def)
  have b: "supported_features ?c AND SUPPORT_SET_TILT_POSITION example_flags = 0"
    unfolding f by (simp add: example_flags_def)
  have p: "current_cover_position (main ?c) = Some 50" by (simp add: current_cover_position_def)
  show ?thesis
    using position_hidden_without_flag [of ?c example_flags] a b p by blast
qed

end
